theory Spec2Isabelle
  imports Main "HOL-Library.Sublist"
begin

section \<open>Exceptions and outcomes\<close>

text \<open>
  The exceptions that the client can raise or let through.  \<open>RequestException\<close> stands for
  \<open>requests.exceptions.RequestException\<close> and all of its subclasses (an \<open>except
  RequestException\<close> clause catches every one of them); its argument is the text that
  \<open>text_type(problem)\<close> yields.  \<open>RetryException\<close> is a subclass of \<open>PoloniexError\<close>, not of
  \<open>RequestException\<close>.  \<open>AttributeErrorOf e\<close> is \<open>AttributeError(e)\<close> for an exception \<open>e\<close>;
  \<open>AttributeError s\<close> is the interpreter's own attribute error for the attribute \<open>s\<close>.
  \<open>NoContextManager\<close> is the error that the interpreter raises when a \<open>with\<close> statement is
  given an object that is no context manager: an \<open>AttributeError\<close> up to Python 3.10, a
  \<open>TypeError\<close> from Python 3.11 on, in no version a \<open>RequestException\<close>.
  \<open>OtherException\<close> is any exception outside the classes named here.
\<close>

datatype exn =
    PoloniexError string
  | RetryException string
  | RequestException string
  | AttributeErrorOf exn
  | AttributeError string
  | NoContextManager
  | KeyError
  | ValueError
  | TypeError
  | IndexError
  | RuntimeError
  | OtherException string

text \<open>
  What a call does: it returns a value, raises, or never returns because it waits for something
  that, on this thread alone, does not happen (\<open>Blocked\<close>).
\<close>

datatype 'a outcome = Return 'a | Raise exn | Blocked

section \<open>The retry decorator\<close>

text \<open>
  \<open>_retry(func)\<close> of \<open>PoloniexAPI\<close>.  The wrapped operation \<open>func\<close> works on a state \<open>'s\<close>
  (everything it can read or change).  The world of the wrapper is that state and a log of what
  the wrapper itself does, in order: each call of \<open>func\<close> and each \<open>time.sleep(delay)\<close>.
\<close>

datatype event = Attempt | Sleep nat

record 's world =
  state :: 's
  log :: "event list"

text \<open>
  The loop \<open>for delay in itertools.chain(self.retries, [None])\<close>; the list argument is what is
  left of the chained sequence, \<open>problems\<close> the list of the same name.  Running off the end of
  the sequence would leave the loop and return Python's \<open>None\<close>: \<open>Return None\<close>.  A value \<open>v\<close>
  returned by \<open>func\<close> is \<open>Return (Some v)\<close>.
\<close>

fun retry_loop ::
  "('s \<Rightarrow> 'a outcome \<times> 's) \<Rightarrow> nat option list \<Rightarrow> exn list \<Rightarrow> 's world
    \<Rightarrow> 'a option outcome \<times> 's world"
where
  "retry_loop func [] problems w = (Return None, w)"
| "retry_loop func (delay # rest) problems w =
    (case func (state w) of (r, s') \<Rightarrow>
      (let w' = w\<lparr>state := s', log := log w @ [Attempt]\<rparr> in
       case r of
         Return v \<Rightarrow> (Return (Some v), w')
       | Blocked \<Rightarrow> (Blocked, w')
       | Raise e \<Rightarrow>
          (case e of
             RequestException problem \<Rightarrow>
               (case delay of
                  None \<Rightarrow> (Raise (RetryException (''retries exhausted '' @ problem)), w')
                | Some d \<Rightarrow>
                    retry_loop func rest (problems @ [e]) (w'\<lparr>log := log w' @ [Sleep d]\<rparr>))
           | _ \<Rightarrow> (Raise e, w'))))"

definition retrying ::
  "nat list \<Rightarrow> ('s \<Rightarrow> 'a outcome \<times> 's) \<Rightarrow> 's world \<Rightarrow> 'a option outcome \<times> 's world"
where
  "retrying retries func w = retry_loop func (map Some retries @ [None]) [] w"

subsection \<open>Vocabulary for the retry properties\<close>

text \<open>The outcome and the state after the \<open>(k+1)\<close>-th consecutive call of \<open>func\<close> from \<open>s\<close>.\<close>

fun nth_call :: "('s \<Rightarrow> 'a outcome \<times> 's) \<Rightarrow> nat \<Rightarrow> 's \<Rightarrow> 'a outcome \<times> 's" where
  "nth_call func 0 s = func s"
| "nth_call func (Suc k) s = nth_call func k (snd (func s))"

fun transient :: "'a outcome \<Rightarrow> bool" where
  "transient (Raise (RequestException m)) = True"
| "transient r = False"

fun problem_text :: "'a outcome \<Rightarrow> string" where
  "problem_text (Raise (RequestException m)) = m"
| "problem_text r = []"

fun lift_outcome :: "'a outcome \<Rightarrow> 'a option outcome" where
  "lift_outcome (Return v) = Return (Some v)"
| "lift_outcome (Raise e) = Raise e"
| "lift_outcome Blocked = Blocked"

text \<open>The log of a run that sleeps the delays \<open>ds\<close>: an attempt, then a sleep and an attempt
  for each delay.\<close>

fun attempts_with :: "nat list \<Rightarrow> event list" where
  "attempts_with [] = [Attempt]"
| "attempts_with (d # ds) = Attempt # Sleep d # attempts_with ds"

definition attempts :: "event list \<Rightarrow> nat" where
  "attempts es = length (filter (\<lambda>e. e = Attempt) es)"

fun sleeps :: "event list \<Rightarrow> nat list" where
  "sleeps [] = []"
| "sleeps (Attempt # es) = sleeps es"
| "sleeps (Sleep d # es) = d # sleeps es"

text \<open>Two operations on a call counter, used to run the wrapper: one that fails
  transiently three times and then succeeds, one that never succeeds.\<close>

definition flaky :: "nat \<Rightarrow> nat outcome \<times> nat" where
  "flaky n = (if n < 3 then Raise (RequestException ''timed out'') else Return n, Suc n)"

definition down :: "nat \<Rightarrow> nat outcome \<times> nat" where
  "down n = (Raise (RequestException (if n = 3 then ''last'' else ''earlier'')), Suc n)"

section \<open>Strings and decoded bodies\<close>

text \<open>
  Python strings are lists of characters; a character is a code point below 256.
  \<open>str_contains s sub\<close> is \<open>sub in s\<close> for two strings.  \<open>lower\<close> is \<open>s.lower()\<close>: the letters
  \<open>A\<close> to \<open>Z\<close> and the capital letters from code point 192 to 222 (all of these but the
  multiplication sign, 215) get bit 5 set, which adds 32.  \<open>split_on sep s\<close> is \<open>s.split(sep)\<close>
  for a separator of one character and \<open>split_ws s\<close> is \<open>s.split()\<close>, which cuts at runs of
  whitespace and yields no empty word; the whitespace below 256 is the code points 9 to 13,
  28 to 32, 133 and 160.
\<close>

fun startswith :: "string \<Rightarrow> string \<Rightarrow> bool" where
  "startswith s [] = True"
| "startswith [] (p # ps) = False"
| "startswith (c # cs) (p # ps) = (c = p \<and> startswith cs ps)"

fun str_contains :: "string \<Rightarrow> string \<Rightarrow> bool" where
  "str_contains [] sub = (sub = [])"
| "str_contains (c # cs) sub = (startswith (c # cs) sub \<or> str_contains cs sub)"

definition lower_char :: "char \<Rightarrow> char" where
  "lower_char c =
     (if (65 \<le> (of_char c :: nat) \<and> (of_char c :: nat) \<le> 90) \<or>
         (192 \<le> (of_char c :: nat) \<and> (of_char c :: nat) \<le> 222 \<and> (of_char c :: nat) \<noteq> 215)
      then (case c of Char b0 b1 b2 b3 b4 b5 b6 b7 \<Rightarrow> Char b0 b1 b2 b3 b4 True b6 b7)
      else c)"

definition lower :: "string \<Rightarrow> string" where
  "lower s = map lower_char s"

fun split_on :: "char \<Rightarrow> string \<Rightarrow> string list" where
  "split_on sep [] = [[]]"
| "split_on sep (c # cs) =
     (if c = sep then [] # split_on sep cs
      else (case split_on sep cs of [] \<Rightarrow> [[c]] | w # ws \<Rightarrow> (c # w) # ws))"

definition is_space :: "char \<Rightarrow> bool" where
  "is_space c = ((of_char c :: nat) \<in> {9, 10, 11, 12, 13, 28, 29, 30, 31, 32, 133, 160})"

fun words_from :: "string \<Rightarrow> string \<Rightarrow> string list" where
  "words_from cur [] = (if cur = [] then [] else [cur])"
| "words_from cur (c # cs) =
     (if is_space c then (if cur = [] then words_from [] cs else cur # words_from [] cs)
      else words_from (cur @ [c]) cs)"

definition split_ws :: "string \<Rightarrow> string list" where
  "split_ws s = words_from [] s"

text \<open>
  \<open>int(s)\<close> for a string \<open>s\<close>, as Python 3 reads it; \<open>None\<close> is the \<open>ValueError\<close> that it raises.
  Whitespace around the literal is dropped (for \<open>int\<close> that is the code points 9 to 13, 32,
  133 and 160).  The literal is an optional sign and decimal digits, which may be grouped by
  single underscores between digits (\<open>digits_of\<close> yields the digits without the underscores).
  A literal of more than 4300 digits is refused (the limit of Python 3.11, where the sign
  and the underscores do not count).
\<close>

definition digit_of :: "char \<Rightarrow> nat option" where
  "digit_of c =
     (if 48 \<le> (of_char c :: nat) \<and> (of_char c :: nat) \<le> 57
      then Some (of_char c - 48) else None)"

fun digits_value :: "nat \<Rightarrow> string \<Rightarrow> nat option" where
  "digits_value acc [] = Some acc"
| "digits_value acc (c # cs) =
     (case digit_of c of None \<Rightarrow> None | Some d \<Rightarrow> digits_value (10 * acc + d) cs)"

definition int_space :: "char \<Rightarrow> bool" where
  "int_space c = ((of_char c :: nat) \<in> {9, 10, 11, 12, 13, 32, 133, 160})"

definition strip_int :: "string \<Rightarrow> string" where
  "strip_int s = rev (dropWhile int_space (rev (dropWhile int_space s)))"

text \<open>The flag tells whether the character before was a digit: an underscore must follow a
  digit and be followed by one, and the literal must end in a digit.\<close>

fun digits_of :: "bool \<Rightarrow> string \<Rightarrow> string option" where
  "digits_of after_digit [] = (if after_digit then Some [] else None)"
| "digits_of after_digit (c # cs) =
     (if c = CHR ''_'' then (if after_digit then digits_of False cs else None)
      else (case digit_of c of
              None \<Rightarrow> None
            | Some d \<Rightarrow> map_option ((#) c) (digits_of True cs)))"

definition max_str_digits :: nat where
  "max_str_digits = 4300"

definition py_int :: "string \<Rightarrow> int option" where
  "py_int s =
     (case strip_int s of
        [] \<Rightarrow> None
      | c # cs \<Rightarrow>
          (case digits_of False (if c = CHR ''-'' \<or> c = CHR ''+'' then cs else c # cs) of
             None \<Rightarrow> None
           | Some ds \<Rightarrow>
               if max_str_digits < length ds then None
               else map_option (\<lambda>n. if c = CHR ''-'' then - int n else int n)
                      (digits_value 0 ds)))"

text \<open>
  What \<open>resp.json()\<close> can return.  An object is the list of its members, each key once.
  \<open>JNum\<close> stands for every number: no branch of the client tells numbers apart.
\<close>

datatype json =
    JNull
  | JBool bool
  | JNum int
  | JStr string
  | JArr "json list"
  | JObj "(string \<times> json) list"

text \<open>The response of the transport: its text and what \<open>resp.json()\<close> yields, \<open>None\<close> when
  decoding raises \<open>ValueError\<close>.\<close>

datatype response = Response (body_text: string) (decoded: "json option")

text \<open>\<open>s in v\<close> and \<open>v[s]\<close> for a string \<open>s\<close> and a decoded value \<open>v\<close>.\<close>

fun py_in :: "string \<Rightarrow> json \<Rightarrow> exn + bool" where
  "py_in s (JObj kvs) = Inr (s \<in> set (map fst kvs))"
| "py_in s (JArr xs) = Inr (JStr s \<in> set xs)"
| "py_in s (JStr t) = Inr (str_contains t s)"
| "py_in s v = Inl TypeError"

fun py_getitem :: "json \<Rightarrow> string \<Rightarrow> exn + json" where
  "py_getitem (JObj kvs) s = (case map_of kvs s of None \<Rightarrow> Inl KeyError | Some v \<Rightarrow> Inr v)"
| "py_getitem v s = Inl TypeError"

section \<open>Handling a response\<close>

text \<open>\<open>int(err.split('.')[0].split()[-1])\<close>: the last word before the first full stop.\<close>

definition nonce_from_error :: "string \<Rightarrow> exn + int" where
  "nonce_from_error err =
     (case split_on CHR ''.'' err of
        [] \<Rightarrow> Inl IndexError
      | first # others \<Rightarrow>
          (case split_ws first of
             [] \<Rightarrow> Inl IndexError
           | w # ws \<Rightarrow>
               (case py_int (last (w # ws)) of None \<Rightarrow> Inl ValueError | Some n \<Rightarrow> Inr n)))"

text \<open>
  \<open>_handleResponse(resp)\<close> of \<open>PoloniexAPI\<close>.  The only attribute of \<open>self\<close> that it reads or
  writes is \<open>_nonce\<close>: the function takes its value and returns the new one with the outcome.
\<close>

definition handleResponse :: "response \<Rightarrow> int \<Rightarrow> json outcome \<times> int" where
  "handleResponse resp nonce0 =
     (case decoded resp of
        None \<Rightarrow> (Raise (PoloniexError ''Invalid json response returned''), nonce0)
      | Some out \<Rightarrow>
          (case py_in ''error'' out of
             Inl e \<Rightarrow> (Raise e, nonce0)
           | Inr has_error \<Rightarrow>
               if \<not> has_error then (Return out, nonce0)
               else
                 (case py_getitem out ''error'' of
                    Inl e \<Rightarrow> (Raise e, nonce0)
                  | Inr err \<Rightarrow>
                      (case py_in ''Nonce must be greater'' err of
                         Inl e \<Rightarrow> (Raise e, nonce0)
                       | Inr is_nonce_error \<Rightarrow>
                           if is_nonce_error then
                             (case err of
                                JStr s \<Rightarrow>
                                  (case nonce_from_error s of
                                     Inl e \<Rightarrow> (Raise e, nonce0)
                                   | Inr n \<Rightarrow>
                                       (Raise (RequestException (''PoloniexError '' @ s)), n))
                              | _ \<Rightarrow> (Raise (AttributeError ''split''), nonce0))
                           else
                             (case err of
                                JStr s \<Rightarrow>
                                  if str_contains (lower s) ''please try again''
                                  then (Raise (RequestException (''PoloniexError '' @ s)), nonce0)
                                  else (Raise (PoloniexError s), nonce0)
                              | _ \<Rightarrow> (Raise (AttributeError ''lower''), nonce0))))))"

section \<open>The rate limit enforcer\<close>

text \<open>
  Modelled from the spec: the classes \<open>Semaphore\<close> and \<open>RecurrentTimer\<close> of
  \<open>poloniex/custom_threading\<close>, which is not among the sources.  The semaphore is a counter
  of permits: \<open>acquire\<close> takes one and waits while there is none, and \<open>clear\<close>, the callback
  of the timer, resets the counter to the capacity it was built with.  The timer is used
  through the interface of a thread: its \<open>ident\<close> is \<open>None\<close> until it has been started, and
  a thread can be started only once.
\<close>

record enforcer =
  callLimit :: nat
  permits :: nat
  timer_ident :: "nat option"

definition semaphore_acquire :: "enforcer \<Rightarrow> unit outcome \<times> enforcer" where
  "semaphore_acquire e =
     (if permits e = 0 then (Blocked, e) else (Return (), e\<lparr>permits := permits e - 1\<rparr>))"

definition semaphore_clear :: "enforcer \<Rightarrow> enforcer" where
  "semaphore_clear e = e\<lparr>permits := callLimit e\<rparr>"

definition timer_start :: "enforcer \<Rightarrow> unit outcome \<times> enforcer" where
  "timer_start e =
     (case timer_ident e of
        None \<Rightarrow> (Return (), e\<lparr>timer_ident := Some 1\<rparr>)
      | Some i \<Rightarrow> (Raise RuntimeError, e))"

text \<open>\<open>RateLimitEnforcer(timeFrame, callLimit)\<close>; the period of the timer plays no part in
  what follows.\<close>

definition RateLimitEnforcer :: "nat \<Rightarrow> enforcer" where
  "RateLimitEnforcer limit = \<lparr>callLimit = limit, permits = limit, timer_ident = None\<rparr>"

text \<open>\<open>wait\<close>, which is also \<open>__enter__\<close>.\<close>

definition wait :: "enforcer \<Rightarrow> unit outcome \<times> enforcer" where
  "wait e =
     (case (if timer_ident e \<noteq> None then timer_start e else (Return (), e)) of
        (Return u, e') \<Rightarrow> semaphore_acquire e'
      | (Raise x, e') \<Rightarrow> (Raise x, e')
      | (Blocked, e') \<Rightarrow> (Blocked, e'))"

text \<open>\<open>__exit__\<close>: \<open>pass\<close>.\<close>

definition exit_coach :: "enforcer \<Rightarrow> enforcer" where
  "exit_coach e = e"

section \<open>The clients\<close>

text \<open>The four classes; \<open>klass\<close> of a client is \<open>type(self)\<close>.\<close>

datatype cls = PoloniexAPI | PoloniexPublicAPI | PoloniexPrivateAPI | Poloniex

definition PoloniexPublicAPI_COMMANDS :: "string list" where
  "PoloniexPublicAPI_COMMANDS =
     [''returnTicker'', ''return24hVolume'', ''returnOrderBook'', ''returnTradeHistory'',
      ''returnChartData'', ''returnCurrencies'', ''returnLoanOrders'']"

definition PoloniexPrivateAPI_COMMANDS :: "string list" where
  "PoloniexPrivateAPI_COMMANDS =
     [''returnBalances'', ''returnCompleteBalances'', ''returnDepositAddresses'',
      ''generateNewAddress'', ''returnDepositsWithdrawals'', ''returnOpenOrders'',
      ''returnTradeHistory'', ''returnAvailableAccountBalances'', ''returnTradableBalances'',
      ''returnOpenLoanOffers'', ''returnOrderTrades'', ''returnActiveLoans'',
      ''returnLendingHistory'', ''createLoanOffer'', ''cancelLoanOffer'', ''toggleAutoRenew'',
      ''buy'', ''sell'', ''cancelOrder'', ''moveOrder'', ''withdraw'', ''returnFeeInfo'',
      ''transferBalance'', ''returnMarginAccountSummary'', ''marginBuy'', ''marginSell'',
      ''getMarginPosition'', ''closeMarginPosition'']"

text \<open>\<open>self.COMMANDS\<close>, resolved on the class of \<open>self\<close>.\<close>

fun COMMANDS :: "cls \<Rightarrow> string list" where
  "COMMANDS PoloniexAPI = []"
| "COMMANDS PoloniexPublicAPI = PoloniexPublicAPI_COMMANDS"
| "COMMANDS PoloniexPrivateAPI = PoloniexPrivateAPI_COMMANDS"
| "COMMANDS Poloniex = PoloniexPublicAPI_COMMANDS @ PoloniexPrivateAPI_COMMANDS"

definition PoloniexPublicAPI_REQEUST_URL :: string where
  "PoloniexPublicAPI_REQEUST_URL = ''http://poloniex.com/public''"

definition PoloniexPrivateAPI_REQEUST_URL :: string where
  "PoloniexPrivateAPI_REQEUST_URL = ''http://poloniex.com/tradingApi''"

definition defaultRetries :: "nat list" where
  "defaultRetries = [0, 2, 5, 30]"

text \<open>
  A dictionary in insertion order: assigning to a key that is present replaces its value in
  place, assigning to a new key appends it; reading a missing key raises \<open>KeyError\<close>.
\<close>

fun dict_set :: "('k \<times> 'v) list \<Rightarrow> 'k \<Rightarrow> 'v \<Rightarrow> ('k \<times> 'v) list" where
  "dict_set [] k v = [(k, v)]"
| "dict_set ((k', v') # kvs) k v =
     (if k' = k then (k, v) # kvs else (k', v') # dict_set kvs k v)"

definition dict_get :: "('k \<times> 'v) list \<Rightarrow> 'k \<Rightarrow> exn + 'v" where
  "dict_get d k = (case map_of d k of None \<Rightarrow> Inl KeyError | Some v \<Rightarrow> Inr v)"

text \<open>The arguments of a command: the keyword arguments of the caller, \<open>command\<close> and, on
  the private path, \<open>nonce\<close>.\<close>

datatype arg = AStr string | AInt int

type_synonym arguments = "(string \<times> arg) list"

text \<open>
  The \<open>payload\<close> dictionary.  \<open>payload['params']\<close> and \<open>payload['data']\<close> are set to the
  \<open>args\<close> dictionary itself, not to a copy: they are references (\<open>TheArgs\<close>) that are read when
  the request is handed to the session, so a later \<open>args['nonce'] = ...\<close> shows in the request.
\<close>

datatype dictref = TheArgs

record payload =
  p_timeout :: "nat option"
  p_url :: string
  p_params :: "dictref option"
  p_data :: "dictref option"
  p_headers :: "(string \<times> string option) list option"

text \<open>What the session is called with: the method and the keyword arguments \<open>**payload\<close>.\<close>

record request =
  rq_method :: string
  rq_url :: string
  rq_timeout :: "nat option"
  rq_params :: "arguments option"
  rq_data :: "arguments option"
  rq_headers :: "(string \<times> string option) list option"

text \<open>
  The attributes of a client.  \<open>nonce\<close> is \<open>_nonce\<close>.  \<open>nonce_lock\<close> is \<open>None\<close> when no lock
  object was given, otherwise \<open>Some held\<close> for a mutual exclusion lock that is held or free.
  \<open>sent\<close> is the record the session keeps of the requests it was handed, oldest first.
  On a public client \<open>key\<close>, \<open>secret\<close>, \<open>nonce\<close> and \<open>nonce_lock\<close> are never read.
\<close>

record client =
  klass :: cls
  timeout :: "nat option"
  retries :: "nat list"
  coach :: enforcer
  key :: "string option"
  secret :: "string option"
  nonce :: int
  nonce_lock :: "bool option"
  sent :: "request list"

text \<open>
  The external capabilities.  \<open>hmac_sha512_hexdigest env secret message\<close> is
  \<open>hmac.new(secret, message, sha512).hexdigest()\<close> for a secret and a message that are
  strings: the digest, or the exception that \<open>hmac.new\<close> raises.  (Python 2 signs such
  strings; the \<open>hmac.new\<close> of Python 3 raises \<open>TypeError\<close> for every one of them, since it
  takes bytes only and \<open>urlencode\<close> returns a string.)  \<open>urlencode\<close> encodes the arguments.
  The transport answers a request, given the requests before it, with a response or with an
  exception.
\<close>

datatype http_result = Responds response | Fails exn

record env =
  hmac_sha512_hexdigest :: "string \<Rightarrow> string \<Rightarrow> exn + string"
  urlencode :: "arguments \<Rightarrow> string"
  transport :: "request list \<Rightarrow> request \<Rightarrow> http_result"

text \<open>The constructors.  \<open>now\<close> is \<open>timegm(datetime.utcnow().timetuple())\<close>.\<close>

definition PoloniexPublicAPI_init :: "nat option \<Rightarrow> nat list \<Rightarrow> enforcer option \<Rightarrow> client" where
  "PoloniexPublicAPI_init timeout0 retries0 coach0 =
     \<lparr>klass = PoloniexPublicAPI, timeout = timeout0, retries = retries0,
      coach = (case coach0 of None \<Rightarrow> RateLimitEnforcer 6 | Some c \<Rightarrow> c),
      key = None, secret = None, nonce = 0, nonce_lock = None, sent = []\<rparr>"

definition PoloniexPrivateAPI_init ::
  "int \<Rightarrow> string option \<Rightarrow> string option \<Rightarrow> nat option \<Rightarrow> nat list \<Rightarrow> enforcer option
    \<Rightarrow> int option \<Rightarrow> bool option \<Rightarrow> client"
where
  "PoloniexPrivateAPI_init now key0 secret0 timeout0 retries0 coach0 start_nonce nonce_lock0 =
     (PoloniexPublicAPI_init timeout0 retries0 coach0)
       \<lparr>klass := PoloniexPrivateAPI, key := key0, secret := secret0,
        nonce := (case start_nonce of None \<Rightarrow> now | Some n \<Rightarrow> n),
        nonce_lock := nonce_lock0\<rparr>"

definition Poloniex_init ::
  "int \<Rightarrow> string option \<Rightarrow> string option \<Rightarrow> nat option \<Rightarrow> nat list \<Rightarrow> enforcer option
    \<Rightarrow> int option \<Rightarrow> bool option \<Rightarrow> client"
where
  "Poloniex_init now key0 secret0 timeout0 retries0 coach0 start_nonce nonce_lock0 =
     (PoloniexPrivateAPI_init now key0 secret0 timeout0 retries0 coach0 start_nonce nonce_lock0)
       \<lparr>klass := Poloniex\<rparr>"

subsection \<open>Attribute lookup\<close>

text \<open>
  \<open>__getattr__\<close>, which Python calls for a name that is not an ordinary attribute of the
  client.  \<open>Inr item\<close> is \<open>partial(self, item)\<close>.  \<open>falsy\<close> is \<open>not x\<close> for a key or a secret.
\<close>

definition falsy :: "string option \<Rightarrow> bool" where
  "falsy x = (x = None \<or> x = Some [])"

definition PoloniexAPI_getattr :: "client \<Rightarrow> string \<Rightarrow> exn + string" where
  "PoloniexAPI_getattr slf item =
     (if item \<in> set (COMMANDS (klass slf)) then Inr item
      else Inl (AttributeErrorOf (PoloniexError (''Invalid Command!: '' @ item))))"

definition PoloniexPrivateAPI_getattr :: "client \<Rightarrow> string \<Rightarrow> exn + string" where
  "PoloniexPrivateAPI_getattr slf item =
     (if falsy (key slf) \<or> falsy (secret slf)
      then Inl (AttributeErrorOf (PoloniexError ''An Api Key and Secret needed!''))
      else PoloniexAPI_getattr slf item)"

definition Poloniex_getattr :: "client \<Rightarrow> string \<Rightarrow> exn + string" where
  "Poloniex_getattr slf item =
     (if item \<in> set PoloniexPrivateAPI_COMMANDS then PoloniexPrivateAPI_getattr slf item
      else PoloniexAPI_getattr slf item)"

fun getattr :: "client \<Rightarrow> string \<Rightarrow> exn + string" where
  "getattr slf item =
     (case klass slf of
        PoloniexAPI \<Rightarrow> PoloniexAPI_getattr slf item
      | PoloniexPublicAPI \<Rightarrow> PoloniexAPI_getattr slf item
      | PoloniexPrivateAPI \<Rightarrow> PoloniexPrivateAPI_getattr slf item
      | Poloniex \<Rightarrow> Poloniex_getattr slf item)"

subsection \<open>Making a request\<close>

text \<open>What one attempt works on: the client and the two dictionaries that \<open>__call__\<close> builds
  once and every attempt changes in place.\<close>

record frame =
  self :: client
  payload :: payload
  args :: arguments

definition set_coach :: "frame \<Rightarrow> enforcer \<Rightarrow> frame" where
  "set_coach f e = f\<lparr>self := (self f)\<lparr>coach := e\<rparr>\<rparr>"

definition set_lock :: "frame \<Rightarrow> bool \<Rightarrow> frame" where
  "set_lock f held = f\<lparr>self := (self f)\<lparr>nonce_lock := Some held\<rparr>\<rparr>"

text \<open>
  \<open>getattr(self.session, method)(**payload)\<close>: the session is handed the request, which it
  records, and yields a response or raises.  The request is read from the payload at this
  moment.
\<close>

definition request_of :: "string \<Rightarrow> frame \<Rightarrow> request" where
  "request_of meth f =
     \<lparr>rq_method = meth, rq_url = p_url (payload f), rq_timeout = p_timeout (payload f),
      rq_params = map_option (\<lambda>r. args f) (p_params (payload f)),
      rq_data = map_option (\<lambda>r. args f) (p_data (payload f)),
      rq_headers = p_headers (payload f)\<rparr>"

definition session_send :: "env \<Rightarrow> string \<Rightarrow> frame \<Rightarrow> http_result \<times> frame" where
  "session_send env meth f =
     (transport env (sent (self f)) (request_of meth f),
      f\<lparr>self := (self f)\<lparr>sent := sent (self f) @ [request_of meth f]\<rparr>\<rparr>)"

text \<open>\<open>self._handleResponse(...)\<close> applied to what the session yielded: if the session raised,
  the exception passes through.\<close>

definition handle_result :: "http_result \<Rightarrow> frame \<Rightarrow> json outcome \<times> frame" where
  "handle_result h f =
     (case h of
        Fails x \<Rightarrow> (Raise x, f)
      | Responds resp \<Rightarrow>
          (case handleResponse resp (nonce (self f)) of
             (r, n) \<Rightarrow> (r, f\<lparr>self := (self f)\<lparr>nonce := n\<rparr>\<rparr>)))"

text \<open>\<open>self._handleResponse(getattr(self.session, method)(**payload))\<close>.\<close>

definition send_and_handle :: "env \<Rightarrow> string \<Rightarrow> frame \<Rightarrow> json outcome \<times> frame" where
  "send_and_handle env meth f =
     (case session_send env meth f of (h, f') \<Rightarrow> handle_result h f')"

text \<open>\<open>PoloniexPublicAPI._make_request\<close>.\<close>

definition PoloniexPublicAPI_make_request :: "env \<Rightarrow> frame \<Rightarrow> json outcome \<times> frame" where
  "PoloniexPublicAPI_make_request env f =
     (let f1 = f\<lparr>payload := (payload f)\<lparr>p_params := Some TheArgs\<rparr>\<rparr> in
      case wait (coach (self f1)) of
        (Raise x, e) \<Rightarrow> (Raise x, set_coach f1 e)
      | (Blocked, e) \<Rightarrow> (Blocked, set_coach f1 e)
      | (Return u, e) \<Rightarrow>
          (case send_and_handle env ''get'' (set_coach f1 e) of
             (r, f2) \<Rightarrow> (r, set_coach f2 (exit_coach (coach (self f2))))))"

text \<open>
  \<open>PoloniexPrivateAPI._make_request\<close>, one statement at a time, so that the same steps serve
  for a thread that runs alone and for several threads on one client.  A thread is at one of
  these places of the method:
  \<^item> \<open>AtData\<close>: before \<open>payload['data'] = args\<close>;
  \<^item> \<open>AtGate\<close>: before \<open>with self.coach\<close>, which calls \<open>wait\<close>; if \<open>wait\<close> raises, the method
    ends without \<open>__exit__\<close>;
  \<^item> \<open>AtLock\<close>: before \<open>with self.nonce_lock\<close>.  If the attribute is \<open>None\<close>, which is no
    context manager, the statement raises \<open>NoContextManager\<close>; if the lock is held, the thread
    waits; otherwise it takes the lock;
  \<^item> \<open>AtRead\<close>, \<open>AtWrite n\<close>: the read and the write of \<open>self._nonce += 1\<close>; \<open>n\<close> is the value
    read;
  \<^item> \<open>AtAttach\<close>: before \<open>args['nonce'] = self._nonce\<close>;
  \<^item> \<open>AtSign\<close>: before \<open>payload['headers'] = {'Sign': hmac.new(...).hexdigest(), 'Key':
    self.key}\<close>; \<open>hmac.new\<close> raises \<open>TypeError\<close> for the secret \<open>None\<close> and otherwise does
    what the environment says; when it raises, the headers are not set and nothing is sent;
  \<^item> \<open>AtSend\<close>: before \<open>session.post(**payload)\<close>;
  \<^item> \<open>AtResponse h\<close>: the session has yielded \<open>h\<close>, before \<open>self._handleResponse\<close>;
  \<^item> \<open>AtRelease r\<close>: leaving the \<open>with self.nonce_lock\<close> block with the outcome \<open>r\<close>, a
    \<open>return\<close> or an exception: the lock is freed;
  \<^item> \<open>AtLeave r\<close>: leaving the \<open>with self.coach\<close> block with the outcome \<open>r\<close> (\<open>__exit__\<close>);
  \<^item> \<open>Ended r\<close>: the method has returned or raised, as \<open>r\<close> says.

  A thread that finds no permit, or finds the lock held, stays where it is.
\<close>

datatype place =
    AtData | AtGate | AtLock | AtRead | AtWrite int | AtAttach | AtSign | AtSend
  | AtResponse http_result | AtRelease "json outcome" | AtLeave "json outcome"
  | Ended "json outcome"

definition private_step :: "env \<Rightarrow> frame \<times> place \<Rightarrow> frame \<times> place" where
  "private_step env fp =
     (case fp of (f, p) \<Rightarrow>
        (case p of
           AtData \<Rightarrow> (f\<lparr>payload := (payload f)\<lparr>p_data := Some TheArgs\<rparr>\<rparr>, AtGate)
         | AtGate \<Rightarrow>
             (case wait (coach (self f)) of
                (Return u, e) \<Rightarrow> (set_coach f e, AtLock)
              | (Blocked, e) \<Rightarrow> (set_coach f e, AtGate)
              | (Raise x, e) \<Rightarrow> (set_coach f e, Ended (Raise x)))
         | AtLock \<Rightarrow>
             (case nonce_lock (self f) of
                None \<Rightarrow> (f, AtLeave (Raise NoContextManager))
              | Some held \<Rightarrow> if held then (f, AtLock) else (set_lock f True, AtRead))
         | AtRead \<Rightarrow> (f, AtWrite (nonce (self f)))
         | AtWrite n \<Rightarrow> (f\<lparr>self := (self f)\<lparr>nonce := n + 1\<rparr>\<rparr>, AtAttach)
         | AtAttach \<Rightarrow>
             (f\<lparr>args := dict_set (args f) ''nonce'' (AInt (nonce (self f)))\<rparr>, AtSign)
         | AtSign \<Rightarrow>
             (case secret (self f) of
                None \<Rightarrow> (f, AtRelease (Raise TypeError))
              | Some sk \<Rightarrow>
                  (case hmac_sha512_hexdigest env sk (urlencode env (args f)) of
                     Inl x \<Rightarrow> (f, AtRelease (Raise x))
                   | Inr digest \<Rightarrow>
                       (f\<lparr>payload := (payload f)\<lparr>p_headers :=
                            Some [(''Sign'', Some digest), (''Key'', key (self f))]\<rparr>\<rparr>,
                        AtSend)))
         | AtSend \<Rightarrow> (case session_send env ''post'' f of (h, f') \<Rightarrow> (f', AtResponse h))
         | AtResponse h \<Rightarrow> (case handle_result h f of (r, f') \<Rightarrow> (f', AtRelease r))
         | AtRelease r \<Rightarrow> (set_lock f False, AtLeave r)
         | AtLeave r \<Rightarrow> (set_coach f (exit_coach (coach (self f))), Ended r)
         | Ended r \<Rightarrow> (f, Ended r)))"

text \<open>The thread runs alone for a number of steps.\<close>

fun run_alone :: "nat \<Rightarrow> env \<Rightarrow> frame \<times> place \<Rightarrow> frame \<times> place" where
  "run_alone 0 env fp = fp"
| "run_alone (Suc k) env fp = run_alone k env (private_step env fp)"

text \<open>
  \<open>PoloniexPrivateAPI._make_request\<close> called by a thread that runs alone.  The method has
  eleven steps; a thread that has not ended after eleven steps waits, for a permit or for the
  lock, and on its own waits for ever (\<open>Blocked\<close>).
\<close>

definition PoloniexPrivateAPI_make_request :: "env \<Rightarrow> frame \<Rightarrow> json outcome \<times> frame" where
  "PoloniexPrivateAPI_make_request env f =
     (case run_alone 11 env (f, AtData) of
        (f', p) \<Rightarrow> ((case p of Ended r \<Rightarrow> r | _ \<Rightarrow> Blocked), f'))"

text \<open>\<open>Poloniex._make_request\<close>.\<close>

definition Poloniex_make_request :: "env \<Rightarrow> frame \<Rightarrow> json outcome \<times> frame" where
  "Poloniex_make_request env f =
     (case dict_get (args f) ''command'' of
        Inl e \<Rightarrow> (Raise e, f)
      | Inr c \<Rightarrow>
          if c \<in> set (map AStr PoloniexPrivateAPI_COMMANDS)
          then PoloniexPrivateAPI_make_request env f
          else PoloniexPublicAPI_make_request env f)"

text \<open>\<open>self._make_request\<close>, resolved on the class of \<open>self\<close>; \<open>PoloniexAPI\<close> has no such
  method, and the lookup ends in its \<open>__getattr__\<close>.\<close>

definition make_request :: "env \<Rightarrow> frame \<Rightarrow> json outcome \<times> frame" where
  "make_request env f =
     (case klass (self f) of
        PoloniexAPI \<Rightarrow>
          (Raise (AttributeErrorOf (PoloniexError ''Invalid Command!: _make_request'')), f)
      | PoloniexPublicAPI \<Rightarrow> PoloniexPublicAPI_make_request env f
      | PoloniexPrivateAPI \<Rightarrow> PoloniexPrivateAPI_make_request env f
      | Poloniex \<Rightarrow> Poloniex_make_request env f)"

subsection \<open>Calling a client\<close>

text \<open>
  The dictionary \<open>{type(self) is PoloniexPublicAPI: ..., type(self) is PoloniexPrivateAPI:
  ...}\<close>, built by two assignments in this order, read at the key \<open>True\<close>.
\<close>

definition request_url :: "cls \<Rightarrow> exn + string" where
  "request_url c =
     dict_get
       (dict_set
          (dict_set [] (c = PoloniexPublicAPI) PoloniexPublicAPI_REQEUST_URL)
          (c = PoloniexPrivateAPI) PoloniexPrivateAPI_REQEUST_URL)
       True"

text \<open>
  What \<open>__call__(command, **args)\<close> hands to the wrapped \<open>_make_request\<close>: the client,
  the payload with the timeout and the URL, and the arguments with \<open>args['command'] =
  command\<close>.
\<close>

definition new_frame :: "client \<Rightarrow> string \<Rightarrow> string \<Rightarrow> arguments \<Rightarrow> frame" where
  "new_frame slf u command kwargs =
     \<lparr>self = slf,
      payload = \<lparr>p_timeout = timeout slf, p_url = u, p_params = None, p_data = None,
                 p_headers = None\<rparr>,
      args = dict_set kwargs ''command'' (AStr command)\<rparr>"

text \<open>
  \<open>__call__(command, **args)\<close>.  The result is the outcome, the client afterwards, and the
  log of the retry wrapper (empty when the wrapper is never entered).
\<close>

definition call ::
  "env \<Rightarrow> client \<Rightarrow> string \<Rightarrow> arguments \<Rightarrow> json option outcome \<times> client \<times> event list"
where
  "call env slf command kwargs =
     (case request_url (klass slf) of
        Inl e \<Rightarrow> (Raise e, slf, [])
      | Inr u \<Rightarrow>
          (case retrying (retries slf) (make_request env)
                  \<lparr>state = new_frame slf u command kwargs, log = []\<rparr>
           of (r, w) \<Rightarrow> (r, self (state w), log w)))"

text \<open>\<open>client.item(**kwargs)\<close> for a name \<open>item\<close> that is not an ordinary attribute of the
  client: the lookup of \<open>item\<close> by \<open>__getattr__\<close>, then the call of what it yields.\<close>

definition invoke ::
  "env \<Rightarrow> client \<Rightarrow> string \<Rightarrow> arguments \<Rightarrow> json option outcome \<times> client \<times> event list"
where
  "invoke env slf item kwargs =
     (case getattr slf item of
        Inl e \<Rightarrow> (Raise e, slf, [])
      | Inr command \<Rightarrow> call env slf command kwargs)"

section \<open>Vocabulary for the request properties\<close>

text \<open>
  What the private path signs, and the request that it hands to the session when the signing
  yields a digest: the arguments with the next nonce, and the digest in the headers.
\<close>

definition signature :: "env \<Rightarrow> frame \<Rightarrow> string \<Rightarrow> exn + string" where
  "signature env f sk =
     hmac_sha512_hexdigest env sk
       (urlencode env (dict_set (args f) ''nonce'' (AInt (nonce (self f) + 1))))"

definition signed_request :: "frame \<Rightarrow> string \<Rightarrow> request" where
  "signed_request f digest =
     (let a = dict_set (args f) ''nonce'' (AInt (nonce (self f) + 1)) in
      \<lparr>rq_method = ''post'', rq_url = p_url (payload f), rq_timeout = p_timeout (payload f),
       rq_params = map_option (\<lambda>r. a) (p_params (payload f)),
       rq_data = Some a,
       rq_headers = Some [(''Sign'', Some digest), (''Key'', key (self f))]\<rparr>)"

text \<open>The nonce that a request carries, and the nonces of all requests a client has sent,
  oldest first.\<close>

definition nonce_of :: "request \<Rightarrow> int option" where
  "nonce_of req =
     (case rq_data req of
        None \<Rightarrow> None
      | Some a \<Rightarrow> (case map_of a ''nonce'' of Some (AInt n) \<Rightarrow> Some n | _ \<Rightarrow> None))"

definition issued :: "client \<Rightarrow> int list" where
  "issued slf = List.map_filter nonce_of (sent slf)"

text \<open>The nonces sent so far are strictly increasing and none is above the stored one.\<close>

definition nonces_in_order :: "client \<Rightarrow> bool" where
  "nonces_in_order slf =
     (sorted_wrt (<) (issued slf) \<and> list_all (\<lambda>n. n \<le> nonce slf) (issued slf))"

text \<open>
  A transport whose replies never make the client store a nonce below the one the request
  carried: what a server that enforces increasing nonces reports.
\<close>

definition never_reports_below :: "env \<Rightarrow> bool" where
  "never_reports_below env =
     (\<forall>h req resp n. transport env h req = Responds resp \<longrightarrow> nonce_of req = Some n \<longrightarrow>
        n \<le> snd (handleResponse resp n))"

text \<open>A sequence of calls on one client, one after the other.\<close>

fun run_calls :: "env \<Rightarrow> client \<Rightarrow> (string \<times> arguments) list \<Rightarrow> client" where
  "run_calls env slf [] = slf"
| "run_calls env slf ((command, kwargs) # rest) =
     run_calls env (fst (snd (call env slf command kwargs))) rest"

text \<open>Relations between the frame before and after an attempt, used to follow the retry
  loop: the session's record only grows and no permit comes back; the nonces stay in order.\<close>

definition extends :: "frame \<Rightarrow> frame \<Rightarrow> bool" where
  "extends f f' =
     ((\<exists>xs. sent (self f') = sent (self f) @ xs) \<and>
      permits (coach (self f')) \<le> permits (coach (self f)))"

definition keeps_order :: "frame \<Rightarrow> frame \<Rightarrow> bool" where
  "keeps_order f f' =
     (klass (self f) = PoloniexPrivateAPI \<and> nonces_in_order (self f) \<longrightarrow>
      klass (self f') = PoloniexPrivateAPI \<and> nonces_in_order (self f') \<and>
      nonce (self f) \<le> nonce (self f'))"

section \<open>Sample environments\<close>

text \<open>
  Concrete external capabilities, used to run the model, around a given transport.  The
  encoder only concatenates the keys.  In \<open>python3_env\<close> the signer is that of Python 3:
  \<open>hmac.new\<close> raises \<open>TypeError\<close> for every secret and message that are strings.  In
  \<open>python2_env\<close> the signer accepts strings, as that of Python 2 does; its digest only
  concatenates.
\<close>

definition python3_env :: "(request list \<Rightarrow> request \<Rightarrow> http_result) \<Rightarrow> env" where
  "python3_env t = \<lparr>hmac_sha512_hexdigest = (\<lambda>k m. Inl TypeError),
     urlencode = (\<lambda>a. concat (map fst a)), transport = t\<rparr>"

definition python2_env :: "(request list \<Rightarrow> request \<Rightarrow> http_result) \<Rightarrow> env" where
  "python2_env t = \<lparr>hmac_sha512_hexdigest = (\<lambda>k m. Inr (k @ m)),
     urlencode = (\<lambda>a. concat (map fst a)), transport = t\<rparr>"

text \<open>Three transports: one answers every request with an empty object; one answers the
  first request with the nonce error and every later one with an empty object; one rejects
  every nonce up to 12345 with that error.\<close>

definition echo :: "request list \<Rightarrow> request \<Rightarrow> http_result" where
  "echo h r = Responds (Response ''{}'' (Some (JObj [])))"

definition nonce_error_first :: "request list \<Rightarrow> request \<Rightarrow> http_result" where
  "nonce_error_first h r =
     (if h = [] then Responds (Response [] (Some (JObj [(''error'',
        JStr ''Nonce must be greater than 12345. You provided 12300.'')])))
      else Responds (Response ''{}'' (Some (JObj []))))"

definition strict_server :: "request list \<Rightarrow> request \<Rightarrow> http_result" where
  "strict_server h r =
     (case nonce_of r of
        None \<Rightarrow> Responds (Response ''{}'' (Some (JObj [])))
      | Some n \<Rightarrow>
          if n \<le> 12345
          then Responds (Response [] (Some (JObj [(''error'',
                 JStr ''Nonce must be greater than 12345. You provided 12300.'')])))
          else Responds (Response ''{}'' (Some (JObj []))))"

definition echo_env :: env where
  "echo_env = python3_env echo"

definition nonce_error_env :: env where
  "nonce_error_env = python2_env nonce_error_first"

definition strict_server_env :: env where
  "strict_server_env = python2_env strict_server"

text \<open>Two private clients with a free lock, starting below and above the server's nonce;
  an operation that always fails with an application error.\<close>

definition trader :: client where
  "trader = PoloniexPrivateAPI_init 0 (Some ''k'') (Some ''s'') None defaultRetries None
     (Some 12299) (Some False)"

definition late_trader :: client where
  "late_trader = PoloniexPrivateAPI_init 0 (Some ''k'') (Some ''s'') None defaultRetries None
     (Some 20000) (Some False)"

definition rejecting :: "nat \<Rightarrow> nat outcome \<times> nat" where
  "rejecting n = (Raise (PoloniexError ''Invalid order.''), Suc n)"

section \<open>The rate gate under several callers\<close>

text \<open>
  Modelled from the spec: what \<open>Semaphore.acquire\<close> and \<open>Semaphore.clear\<close> of
  \<open>poloniex/custom_threading\<close>, which is not among the sources, do when several callers use
  one enforcer.  A caller that finds no permit waits inside \<open>acquire\<close>; when the timer
  fires, \<open>clear\<close> resets the permits to the capacity and the waiting callers take permits
  while there are any, the others keep waiting.  The state records the enforcer, the number
  of callers waiting inside \<open>wait\<close>, and the number of calls of \<open>wait\<close> that have returned.
  An event is a call of \<open>wait\<close>, a call of \<open>__exit__\<close>, or a firing of the timer.
\<close>

datatype gate_event = Calls_wait | Calls_exit | Timer_fires

record gate =
  enforcer_of :: enforcer
  waiting :: nat
  returned :: nat

fun wake :: "nat \<Rightarrow> enforcer \<Rightarrow> nat \<times> enforcer" where
  "wake 0 e = (0, e)"
| "wake (Suc k) e =
     (case semaphore_acquire e of
        (Return u, e') \<Rightarrow> (case wake k e' of (m, e'') \<Rightarrow> (Suc m, e''))
      | (Raise x, e') \<Rightarrow> (0, e')
      | (Blocked, e') \<Rightarrow> (0, e'))"

fun gate_step :: "gate \<Rightarrow> gate_event \<Rightarrow> gate" where
  "gate_step g Calls_wait =
     (case wait (enforcer_of g) of
        (Return u, e) \<Rightarrow> g\<lparr>enforcer_of := e, returned := returned g + 1\<rparr>
      | (Blocked, e) \<Rightarrow> g\<lparr>enforcer_of := e, waiting := waiting g + 1\<rparr>
      | (Raise x, e) \<Rightarrow> g\<lparr>enforcer_of := e\<rparr>)"
| "gate_step g Calls_exit = g\<lparr>enforcer_of := exit_coach (enforcer_of g)\<rparr>"
| "gate_step g Timer_fires =
     (case wake (waiting g) (semaphore_clear (enforcer_of g)) of
        (m, e) \<Rightarrow> g\<lparr>enforcer_of := e, waiting := waiting g - m, returned := returned g + m\<rparr>)"

definition gate_run :: "gate \<Rightarrow> gate_event list \<Rightarrow> gate" where
  "gate_run g es = foldl gate_step g es"

definition new_gate :: "nat \<Rightarrow> gate" where
  "new_gate limit = \<lparr>enforcer_of = RateLimitEnforcer limit, waiting = 0, returned = 0\<rparr>"

section \<open>Private requests of several threads\<close>

text \<open>
  Several threads call \<open>PoloniexPrivateAPI._make_request\<close> on one client.  The client is
  shared; each thread has the two dictionaries of its call and its place in the method, and
  takes the steps of \<open>private_step\<close> on the shared client.  \<open>consumed\<close> lists the nonces of the
  requests sent before the threads began and then the nonces in the order in which the
  increments write them; the order in which the requests are handed to the session is that
  of \<open>sent\<close> of the client.
\<close>

record thread =
  its_payload :: payload
  its_args :: arguments
  at :: place

record system =
  shared :: client
  threads :: "nat \<Rightarrow> thread"
  consumed :: "int list"

definition frame_of :: "system \<Rightarrow> nat \<Rightarrow> frame" where
  "frame_of s t =
     \<lparr>self = shared s, payload = its_payload (threads s t), args = its_args (threads s t)\<rparr>"

definition thread_step :: "env \<Rightarrow> system \<Rightarrow> nat \<Rightarrow> system" where
  "thread_step env s t =
     (case private_step env (frame_of s t, at (threads s t)) of
        (f, p) \<Rightarrow>
          s\<lparr>shared := self f,
            threads := (threads s)(t := \<lparr>its_payload = payload f, its_args = args f, at = p\<rparr>),
            consumed := (case at (threads s t) of
                           AtWrite n \<Rightarrow> consumed s @ [n + 1]
                         | _ \<Rightarrow> consumed s)\<rparr>)"

text \<open>
  A schedule is a list of actions: a step of a thread; a thread whose call has ended calling
  the method again, for a retry or for a new request, with the dictionaries given; or a
  firing of the timer.
\<close>

datatype action = Step nat | Enters nat payload arguments | Tick

fun act :: "env \<Rightarrow> system \<Rightarrow> action \<Rightarrow> system" where
  "act env s (Step t) = thread_step env s t"
| "act env s (Enters t p a) =
     (case at (threads s t) of
        Ended r \<Rightarrow> s\<lparr>threads := (threads s)(t := \<lparr>its_payload = p, its_args = a, at = AtData\<rparr>)\<rparr>
      | _ \<Rightarrow> s)"
| "act env s Tick = s\<lparr>shared := (shared s)\<lparr>coach := semaphore_clear (coach (shared s))\<rparr>\<rparr>"

definition run_threads :: "env \<Rightarrow> system \<Rightarrow> action list \<Rightarrow> system" where
  "run_threads env s as = foldl (act env) s as"

text \<open>The client before the threads take a step: every thread is about to enter the method
  with the dictionaries of its call.\<close>

definition start :: "client \<Rightarrow> (nat \<Rightarrow> payload \<times> arguments) \<Rightarrow> system" where
  "start slf calls =
     \<lparr>shared = slf,
      threads = (\<lambda>t. \<lparr>its_payload = fst (calls t), its_args = snd (calls t), at = AtData\<rparr>),
      consumed = issued slf\<rparr>"

text \<open>The places inside the \<open>with self.nonce_lock\<close> block, and the places of the method after
  \<open>payload['data'] = args\<close>.\<close>

fun in_block :: "place \<Rightarrow> bool" where
  "in_block AtRead = True"
| "in_block (AtWrite n) = True"
| "in_block AtAttach = True"
| "in_block AtSign = True"
| "in_block AtSend = True"
| "in_block (AtResponse h) = True"
| "in_block (AtRelease r) = True"
| "in_block p = False"

fun has_data :: "place \<Rightarrow> bool" where
  "has_data AtData = False"
| "has_data (Ended r) = False"
| "has_data p = True"

text \<open>
  The invariant of the schedules.  At most one thread is inside the block, and the lock is
  held exactly while one is; the requests were sent in the order their nonces were consumed;
  between the increment and the send, the nonce of the thread in the block is the last one
  consumed, is still the stored one, and is the one in the arguments of the thread.
\<close>

definition lock_spans :: "system \<Rightarrow> bool" where
  "lock_spans s =
     ((\<forall>t u. in_block (at (threads s t)) \<and> in_block (at (threads s u)) \<longrightarrow> t = u) \<and>
      ((\<exists>t. in_block (at (threads s t))) \<longleftrightarrow> nonce_lock (shared s) = Some True))"

definition awaiting_send :: "system \<Rightarrow> bool" where
  "awaiting_send s =
     (\<exists>pre. consumed s = pre @ [nonce (shared s)] \<and> subseq (issued (shared s)) pre)"

definition carries_nonce :: "system \<Rightarrow> nat \<Rightarrow> bool" where
  "carries_nonce s t =
     (map_of (its_args (threads s t)) ''nonce'' = Some (AInt (nonce (shared s))))"

definition pending :: "system \<Rightarrow> bool" where
  "pending s =
     (\<forall>t. (\<forall>n. at (threads s t) = AtWrite n \<longrightarrow> n = nonce (shared s)) \<and>
          (at (threads s t) \<in> {AtAttach, AtSign, AtSend} \<longrightarrow> awaiting_send s) \<and>
          (at (threads s t) \<in> {AtSign, AtSend} \<longrightarrow> carries_nonce s t))"

definition prepared :: "system \<Rightarrow> bool" where
  "prepared s =
     (\<forall>t. has_data (at (threads s t)) \<longrightarrow> p_data (its_payload (threads s t)) = Some TheArgs)"

definition sends_in_order :: "system \<Rightarrow> bool" where
  "sends_in_order s =
     (lock_spans s \<and> subseq (issued (shared s)) (consumed s) \<and> pending s \<and> prepared s)"

text \<open>A schedule of two threads that both ask for the balances of \<open>trader\<close>: thread 1
  reaches the lock while thread 0 holds it, and takes it after thread 0 has freed it.\<close>

definition balances_call :: "nat \<Rightarrow> payload \<times> arguments" where
  "balances_call t =
     (payload (new_frame trader PoloniexPrivateAPI_REQEUST_URL ''returnBalances'' []),
      args (new_frame trader PoloniexPrivateAPI_REQEUST_URL ''returnBalances'' []))"

definition two_threads :: "action list" where
  "two_threads =
     [Step 0, Step 0, Step 0, Step 1, Step 1, Step 1, Step 1, Step 0, Step 0, Step 0, Step 0,
      Step 0, Step 1, Step 0, Step 0, Step 1, Step 1, Step 1, Step 1]"

section \<open>Properties of the retry decorator\<close>

lemma attempts_attempts_with: "attempts (attempts_with ds) = length ds + 1"
  by (induction ds) (simp_all add: attempts_def)

lemma sleeps_attempts_with: "sleeps (attempts_with ds) = ds"
  by (induction ds) simp_all

lemma sleeps_append: "sleeps (xs @ ys) = sleeps xs @ sleeps ys"
  by (induction xs rule: sleeps.induct) simp_all

lemma attempts_append: "attempts (xs @ ys) = attempts xs + attempts ys"
  by (simp add: attempts_def)

lemma transient_iff: "transient r = (\<exists>m. r = Raise (RequestException m))"
  by (cases r rule: transient.cases) simp_all

lemma retry_loop_settles:
  "k \<le> length ds \<Longrightarrow> \<forall>j<k. transient (fst (nth_call func j (state w)))
    \<Longrightarrow> \<not> transient (fst (nth_call func k (state w)))
    \<Longrightarrow> retry_loop func (map Some ds @ [None]) ps w =
        (lift_outcome (fst (nth_call func k (state w))),
         w\<lparr>state := snd (nth_call func k (state w)),
           log := log w @ attempts_with (take k ds)\<rparr>)"
proof (induction ds arbitrary: k ps w)
  case Nil
  then have k0: "k = 0" by simp
  obtain r s' where f: "func (state w) = (r, s')" by (cases "func (state w)")
  from Nil k0 f have nt: "\<not> transient r" by simp
  show ?case using k0 f nt
    by (cases r rule: transient.cases) (simp_all)
next
  case (Cons d ds)
  obtain r s' where f: "func (state w) = (r, s')" by (cases "func (state w)")
  show ?case
  proof (cases k)
    case 0
    with Cons.prems f have nt: "\<not> transient r" by simp
    show ?thesis using 0 f nt
      by (cases r rule: transient.cases) (simp_all)
  next
    case (Suc k')
    with Cons.prems f have tr: "transient r" by (auto dest: spec[where x=0])
    then obtain m where r: "r = Raise (RequestException m)" by (auto simp: transient_iff)
    let ?w = "w\<lparr>state := s', log := log w @ [Attempt, Sleep d]\<rparr>"
    have step: "retry_loop func (map Some (d # ds) @ [None]) ps w
        = retry_loop func (map Some ds @ [None]) (ps @ [RequestException m]) ?w"
      using f r by simp
    have a: "k' \<le> length ds" using Cons.prems Suc by simp
    have b: "\<forall>j<k'. transient (fst (nth_call func j (state ?w)))"
    proof (intro allI impI)
      fix j assume "j < k'"
      then have "Suc j < k" using Suc by simp
      with Cons.prems(2) have "transient (fst (nth_call func (Suc j) (state w)))" by blast
      then show "transient (fst (nth_call func j (state ?w)))" using f by simp
    qed
    have c: "\<not> transient (fst (nth_call func k' (state ?w)))"
      using Cons.prems(3) Suc f by simp
    show ?thesis
      unfolding step Cons.IH[OF a b c] using Suc f by simp
  qed
qed

lemma retry_loop_exhausts:
  "\<forall>j\<le>length ds. transient (fst (nth_call func j (state w)))
    \<Longrightarrow> retry_loop func (map Some ds @ [None]) ps w =
        (Raise (RetryException (''retries exhausted '' @
            problem_text (fst (nth_call func (length ds) (state w))))),
         w\<lparr>state := snd (nth_call func (length ds) (state w)),
           log := log w @ attempts_with ds\<rparr>)"
proof (induction ds arbitrary: ps w)
  case Nil
  obtain r s' where f: "func (state w) = (r, s')" by (cases "func (state w)")
  with Nil have "transient r" by simp
  then obtain m where r: "r = Raise (RequestException m)" by (auto simp: transient_iff)
  show ?case using f r by simp
next
  case (Cons d ds)
  obtain r s' where f: "func (state w) = (r, s')" by (cases "func (state w)")
  from Cons.prems f have "transient r" by (auto dest: spec[where x=0])
  then obtain m where r: "r = Raise (RequestException m)" by (auto simp: transient_iff)
  let ?w = "w\<lparr>state := s', log := log w @ [Attempt, Sleep d]\<rparr>"
  have step: "retry_loop func (map Some (d # ds) @ [None]) ps w
      = retry_loop func (map Some ds @ [None]) (ps @ [RequestException m]) ?w"
    using f r by simp
  have b: "\<forall>j\<le>length ds. transient (fst (nth_call func j (state ?w)))"
  proof (intro allI impI)
    fix j assume "j \<le> length ds"
    then have "Suc j \<le> length (d # ds)" by simp
    with Cons.prems have "transient (fst (nth_call func (Suc j) (state w)))" by blast
    then show "transient (fst (nth_call func j (state ?w)))" using f by simp
  qed
  show ?case unfolding step Cons.IH[OF b] using f by simp
qed

text \<open>
  Claim C1.  Let \<open>N\<close> be the number of configured delays.  The wrapper calls the operation at
  most \<open>N + 1\<close> times.  If the \<open>(k+1)\<close>-th call is the first one that does not fail with a
  \<open>RequestException\<close> (\<open>k \<le> N\<close>), the wrapper stops there: its outcome is that call's outcome
  (the returned value, or the non-transient exception), the state is the one that call left,
  and what the wrapper did is exactly: a call, then for each of the first \<open>k\<close> delays in
  order a sleep of that delay and a call.  If all \<open>N + 1\<close> calls fail transiently, every delay
  has been slept in order and the wrapper raises \<open>RetryException\<close> with the text of the last
  failure.  In every case the delays slept are a prefix of the configured ones and there is
  one call more than sleeps.
\<close>

theorem retrying_contract:
  "(\<forall>k\<le>length delays.
      (\<forall>j<k. transient (fst (nth_call func j (state w)))) \<and>
      \<not> transient (fst (nth_call func k (state w))) \<longrightarrow>
      retrying delays func w =
        (lift_outcome (fst (nth_call func k (state w))),
         w\<lparr>state := snd (nth_call func k (state w)),
           log := log w @ attempts_with (take k delays)\<rparr>))
   \<and> ((\<forall>j\<le>length delays. transient (fst (nth_call func j (state w)))) \<longrightarrow>
      retrying delays func w =
        (Raise (RetryException (''retries exhausted '' @
            problem_text (fst (nth_call func (length delays) (state w))))),
         w\<lparr>state := snd (nth_call func (length delays) (state w)),
           log := log w @ attempts_with delays\<rparr>))
   \<and> (\<exists>k\<le>length delays.
        attempts (log (snd (retrying delays func w))) = attempts (log w) + k + 1 \<and>
        sleeps (log (snd (retrying delays func w))) = sleeps (log w) @ take k delays)"
proof (intro conjI allI impI)
  fix k
  assume "k \<le> length delays"
    and "(\<forall>j<k. transient (fst (nth_call func j (state w)))) \<and>
      \<not> transient (fst (nth_call func k (state w)))"
  then show "retrying delays func w =
        (lift_outcome (fst (nth_call func k (state w))),
         w\<lparr>state := snd (nth_call func k (state w)),
           log := log w @ attempts_with (take k delays)\<rparr>)"
    unfolding retrying_def by (intro retry_loop_settles) simp_all
next
  assume "\<forall>j\<le>length delays. transient (fst (nth_call func j (state w)))"
  then show "retrying delays func w =
        (Raise (RetryException (''retries exhausted '' @
            problem_text (fst (nth_call func (length delays) (state w))))),
         w\<lparr>state := snd (nth_call func (length delays) (state w)),
           log := log w @ attempts_with delays\<rparr>)"
    unfolding retrying_def by (rule retry_loop_exhausts)
next
  let ?T = "\<lambda>j. transient (fst (nth_call func j (state w)))"
  show "\<exists>k\<le>length delays.
        attempts (log (snd (retrying delays func w))) = attempts (log w) + k + 1 \<and>
        sleeps (log (snd (retrying delays func w))) = sleeps (log w) @ take k delays"
  proof (cases "\<forall>j\<le>length delays. ?T j")
    case True
    from retry_loop_exhausts[OF True, of "[]"] show ?thesis
      unfolding retrying_def
      by (intro exI[of _ "length delays"])
        (simp add: attempts_append sleeps_append attempts_attempts_with sleeps_attempts_with)
  next
    case False
    then obtain j where j: "j \<le> length delays" "\<not> ?T j" by blast
    define k where "k = (LEAST j. \<not> ?T j)"
    have nk: "\<not> ?T k" unfolding k_def using j(2) by (rule LeastI)
    have kj: "k \<le> j" unfolding k_def using j(2) by (rule Least_le)
    have before: "\<forall>i<k. ?T i" unfolding k_def using not_less_Least by blast
    have kl: "k \<le> length delays" using kj j(1) by simp
    from retry_loop_settles[OF kl before nk, of "[]"] kl show ?thesis
      unfolding retrying_def
      by (intro exI[of _ k])
        (simp add: attempts_append sleeps_append attempts_attempts_with sleeps_attempts_with)
  qed
qed

lemma nth_call_flaky: "nth_call flaky k n = flaky (n + k)"
  by (induction k arbitrary: n) (simp_all add: flaky_def)
lemma nth_call_down: "nth_call down k n = down (n + k)"
  by (induction k arbitrary: n) (simp_all add: down_def)

theorem retrying_contract_witness:
  "retrying [0, 2, 5] flaky \<lparr>state = 0, log = []\<rparr> =
     (Return (Some 3),
      \<lparr>state = 4, log = [Attempt, Sleep 0, Attempt, Sleep 2, Attempt, Sleep 5, Attempt]\<rparr>)
   \<and> retrying [0, 2, 5] down \<lparr>state = 0, log = []\<rparr> =
     (Raise (RetryException ''retries exhausted last''),
      \<lparr>state = 4, log = [Attempt, Sleep 0, Attempt, Sleep 2, Attempt, Sleep 5, Attempt]\<rparr>)"
proof
  let ?w = "\<lparr>state = 0::nat, log = []\<rparr>"
  have k: "3 \<le> length [0::nat, 2, 5]" by simp
  have pre: "(\<forall>j<3. transient (fst (nth_call flaky j (state ?w)))) \<and>
      \<not> transient (fst (nth_call flaky 3 (state ?w)))"
    by (simp add: nth_call_flaky flaky_def)
  note first = retrying_contract[of "[0, 2, 5]" flaky ?w, THEN conjunct1, rule_format, OF k pre]
  show "retrying [0, 2, 5] flaky ?w =
     (Return (Some 3),
      \<lparr>state = 4, log = [Attempt, Sleep 0, Attempt, Sleep 2, Attempt, Sleep 5, Attempt]\<rparr>)"
    unfolding first by (simp add: nth_call_flaky flaky_def)
next
  let ?w = "\<lparr>state = 0::nat, log = []\<rparr>"
  have pre: "\<forall>j\<le>length [0::nat, 2, 5]. transient (fst (nth_call down j (state ?w)))"
    by (simp add: nth_call_down down_def)
  note last = retrying_contract[of "[0, 2, 5]" down ?w, THEN conjunct2, THEN conjunct1,
      THEN mp, OF pre]
  show "retrying [0, 2, 5] down ?w =
     (Raise (RetryException ''retries exhausted last''),
      \<lparr>state = 4, log = [Attempt, Sleep 0, Attempt, Sleep 2, Attempt, Sleep 5, Attempt]\<rparr>)"
    unfolding last by (simp add: nth_call_down down_def)
qed

section \<open>The steps of a private request\<close>

lemma private_step_simps:
  "private_step env (f, AtData) = (f\<lparr>payload := (payload f)\<lparr>p_data := Some TheArgs\<rparr>\<rparr>, AtGate)"
  "private_step env (f, AtGate) =
     (case wait (coach (self f)) of
        (Return u, e) \<Rightarrow> (set_coach f e, AtLock)
      | (Blocked, e) \<Rightarrow> (set_coach f e, AtGate)
      | (Raise x, e) \<Rightarrow> (set_coach f e, Ended (Raise x)))"
  "private_step env (f, AtLock) =
     (case nonce_lock (self f) of
        None \<Rightarrow> (f, AtLeave (Raise NoContextManager))
      | Some held \<Rightarrow> if held then (f, AtLock) else (set_lock f True, AtRead))"
  "private_step env (f, AtRead) = (f, AtWrite (nonce (self f)))"
  "private_step env (f, AtWrite n) = (f\<lparr>self := (self f)\<lparr>nonce := n + 1\<rparr>\<rparr>, AtAttach)"
  "private_step env (f, AtAttach) =
     (f\<lparr>args := dict_set (args f) ''nonce'' (AInt (nonce (self f)))\<rparr>, AtSign)"
  "private_step env (f, AtSign) =
     (case secret (self f) of
        None \<Rightarrow> (f, AtRelease (Raise TypeError))
      | Some sk \<Rightarrow>
          (case hmac_sha512_hexdigest env sk (urlencode env (args f)) of
             Inl x \<Rightarrow> (f, AtRelease (Raise x))
           | Inr digest \<Rightarrow>
               (f\<lparr>payload := (payload f)\<lparr>p_headers :=
                    Some [(''Sign'', Some digest), (''Key'', key (self f))]\<rparr>\<rparr>,
                AtSend)))"
  "private_step env (f, AtSend) =
     (case session_send env ''post'' f of (h, f') \<Rightarrow> (f', AtResponse h))"
  "private_step env (f, AtResponse h) =
     (case handle_result h f of (r, f') \<Rightarrow> (f', AtRelease r))"
  "private_step env (f, AtRelease r) = (set_lock f False, AtLeave r)"
  "private_step env (f, AtLeave r) = (set_coach f (exit_coach (coach (self f))), Ended r)"
  "private_step env (f, Ended r) = (f, Ended r)"
  by (simp_all add: private_step_def)

lemma run_alone_Ended: "run_alone k env (f, Ended r) = (f, Ended r)"
  by (induction k) (simp_all add: private_step_simps)

lemma run_alone_numeral:
  "run_alone (numeral n) env fp = run_alone (pred_numeral n) env (private_step env fp)"
  by (simp add: numeral_eq_Suc)

lemma wait_Blocked: "wait e0 = (Blocked, e) \<Longrightarrow> e = e0"
  by (auto simp: wait_def timer_start_def semaphore_acquire_def split: option.splits if_splits)

text \<open>
  The method as a whole, for a thread that runs alone: the two nested \<open>with\<close> blocks around
  the increment, the attaching of the nonce, the signature and the request.
\<close>

lemma PoloniexPrivateAPI_make_request_unfold:
  "PoloniexPrivateAPI_make_request env f =
     (let f1 = f\<lparr>payload := (payload f)\<lparr>p_data := Some TheArgs\<rparr>\<rparr> in
      case wait (coach (self f1)) of
        (Raise x, e) \<Rightarrow> (Raise x, set_coach f1 e)
      | (Blocked, e) \<Rightarrow> (Blocked, set_coach f1 e)
      | (Return u, e) \<Rightarrow>
          (let f2 = set_coach f1 e in
           case
             (case nonce_lock (self f2) of
                None \<Rightarrow> (Raise NoContextManager, f2)
              | Some True \<Rightarrow> (Blocked, f2)
              | Some False \<Rightarrow>
                  (let f3 = set_lock f2 True;
                       n = nonce (self f3) + 1;
                       f4 = f3\<lparr>self := (self f3)\<lparr>nonce := n\<rparr>,
                              args := dict_set (args f3) ''nonce'' (AInt n)\<rparr>
                   in case
                        (case secret (self f4) of
                           None \<Rightarrow> (Raise TypeError, f4)
                         | Some sk \<Rightarrow>
                             (case hmac_sha512_hexdigest env sk (urlencode env (args f4)) of
                                Inl x \<Rightarrow> (Raise x, f4)
                              | Inr digest \<Rightarrow>
                                  send_and_handle env ''post''
                                    (f4\<lparr>payload := (payload f4)\<lparr>p_headers :=
                                       Some [(''Sign'', Some digest),
                                             (''Key'', key (self f4))]\<rparr>\<rparr>)))
                      of (r, f5) \<Rightarrow> (r, set_lock f5 False)))
           of (r, f6) \<Rightarrow> (r, set_coach f6 (exit_coach (coach (self f6))))))"
proof -
  obtain r e where w: "wait (coach (self f)) = (r, e)" by (cases "wait (coach (self f))")
  note s = PoloniexPrivateAPI_make_request_def run_alone_numeral private_step_simps
    run_alone_Ended Let_def
  show ?thesis
  proof (cases r)
    case (Raise x)
    then show ?thesis using w by (simp add: s)
  next
    case Blocked
    with w have "e = coach (self f)" by (simp add: wait_Blocked)
    then show ?thesis using w Blocked by (simp add: s set_coach_def)
  next
    case (Return u)
    show ?thesis
    proof (cases "nonce_lock (self f)")
      case None
      then show ?thesis using w Return by (simp add: s set_coach_def)
    next
      case (Some held)
      show ?thesis
      proof (cases held)
        case True
        then show ?thesis using w Return Some by (simp add: s set_coach_def exit_coach_def)
      next
        case False
        show ?thesis
        proof (cases "secret (self f)")
          case None
          then show ?thesis using w Return Some False
            by (simp add: s set_coach_def set_lock_def)
        next
          case sk: (Some sk)
          then show ?thesis using w Return Some False
            by (simp add: s set_coach_def set_lock_def send_and_handle_def
                split: sum.splits prod.splits)
        qed
      qed
    qed
  qed
qed

section \<open>Properties of the clients\<close>

lemma request_url_cases:
  "request_url c =
     (if c = PoloniexPublicAPI then Inr PoloniexPublicAPI_REQEUST_URL
      else if c = PoloniexPrivateAPI then Inr PoloniexPrivateAPI_REQEUST_URL
      else Inl KeyError)"
  by (cases c) (simp_all add: request_url_def dict_get_def)

lemma getattr_unknown:
  "item \<notin> set (COMMANDS (klass slf)) \<Longrightarrow>
    \<exists>m. getattr slf item = Inl (AttributeErrorOf (PoloniexError m))"
  by (cases "klass slf")
    (auto simp: PoloniexAPI_getattr_def PoloniexPrivateAPI_getattr_def Poloniex_getattr_def)

lemma getattr_no_credentials:
  "falsy (key slf) \<or> falsy (secret slf) \<Longrightarrow>
   klass slf = PoloniexPrivateAPI \<or> (klass slf = Poloniex \<and> item \<in> set PoloniexPrivateAPI_COMMANDS) \<Longrightarrow>
   getattr slf item = Inl (AttributeErrorOf (PoloniexError ''An Api Key and Secret needed!''))"
  by (auto simp: PoloniexPrivateAPI_getattr_def Poloniex_getattr_def)

lemma wait_timer: "timer_ident (snd (wait e)) = timer_ident e"
  by (auto simp: wait_def timer_start_def semaphore_acquire_def split: option.splits)

lemma retrying_first_settles:
  assumes "func (state w) = (r, s')" and "\<not> transient r"
  shows "retrying ds func w = (lift_outcome r, w\<lparr>state := s', log := log w @ [Attempt]\<rparr>)"
proof -
  have "retry_loop func (map Some ds @ [None]) [] w =
        (lift_outcome (fst (nth_call func 0 (state w))),
         w\<lparr>state := snd (nth_call func 0 (state w)),
           log := log w @ attempts_with (take 0 ds)\<rparr>)"
    by (rule retry_loop_settles) (use assms in simp_all)
  then show ?thesis using assms by (simp add: retrying_def)
qed

lemma wait_granted:
  "timer_ident e = None \<Longrightarrow> 0 < permits e \<Longrightarrow>
    wait e = (Return (), e\<lparr>permits := permits e - 1\<rparr>)"
  by (simp add: wait_def semaphore_acquire_def)

lemma wait_blocks:
  "timer_ident e = None \<Longrightarrow> permits e = 0 \<Longrightarrow> wait e = (Blocked, e)"
  by (simp add: wait_def semaphore_acquire_def)

lemma wait_started:
  "timer_ident e = Some i \<Longrightarrow> wait e = (Raise RuntimeError, e)"
  by (simp add: wait_def timer_start_def)

lemma private_request_without_lock:
  assumes "nonce_lock (self f) = None" "timer_ident (coach (self f)) = None"
    "0 < permits (coach (self f))"
  shows "PoloniexPrivateAPI_make_request env f =
     (Raise (NoContextManager),
      f\<lparr>self := (self f)\<lparr>coach := (coach (self f))\<lparr>permits := permits (coach (self f)) - 1\<rparr>\<rparr>,
        payload := (payload f)\<lparr>p_data := Some TheArgs\<rparr>\<rparr>)"
  using assms
  by (simp add: PoloniexPrivateAPI_make_request_unfold wait_granted set_coach_def exit_coach_def)

lemma private_request_blocks:
  assumes "timer_ident (coach (self f)) = None" "permits (coach (self f)) = 0"
  shows "PoloniexPrivateAPI_make_request env f =
     (Blocked, f\<lparr>payload := (payload f)\<lparr>p_data := Some TheArgs\<rparr>\<rparr>)"
  using assms
  by (simp add: PoloniexPrivateAPI_make_request_unfold wait_blocks set_coach_def)

lemma call_private_without_lock:
  assumes "klass slf = PoloniexPrivateAPI" "nonce_lock slf = None"
    "timer_ident (coach slf) = None" "0 < permits (coach slf)"
  shows "call env slf command kwargs =
     (Raise (NoContextManager),
      slf\<lparr>coach := (coach slf)\<lparr>permits := permits (coach slf) - 1\<rparr>\<rparr>, [Attempt])"
proof -
  let ?f = "\<lparr>self = slf,
      payload = \<lparr>p_timeout = timeout slf, p_url = PoloniexPrivateAPI_REQEUST_URL,
        p_params = None, p_data = None, p_headers = None\<rparr>,
      args = dict_set kwargs ''command'' (AStr command)\<rparr>"
  have m: "make_request env ?f = PoloniexPrivateAPI_make_request env ?f"
    using assms(1) by (simp add: make_request_def)
  have p: "PoloniexPrivateAPI_make_request env ?f =
     (Raise (NoContextManager),
      ?f\<lparr>self := (self ?f)\<lparr>coach := (coach (self ?f))\<lparr>permits := permits (coach (self ?f)) - 1\<rparr>\<rparr>,
        payload := (payload ?f)\<lparr>p_data := Some TheArgs\<rparr>\<rparr>)"
    by (rule private_request_without_lock) (use assms in simp_all)
  have r: "retrying (retries slf) (make_request env) \<lparr>state = ?f, log = []\<rparr> =
      (lift_outcome (Raise (NoContextManager)),
       \<lparr>state = ?f, log = []\<rparr>\<lparr>state := ?f\<lparr>self := (self ?f)\<lparr>coach := (coach (self ?f))\<lparr>permits := permits (coach (self ?f)) - 1\<rparr>\<rparr>,
        payload := (payload ?f)\<lparr>p_data := Some TheArgs\<rparr>\<rparr>, log := log \<lparr>state = ?f, log = []\<rparr> @ [Attempt]\<rparr>)"
    by (rule retrying_first_settles) (simp_all add: m p)
  show ?thesis
    using assms(1) by (simp add: call_def request_url_cases new_frame_def r)
qed

lemma call_private_blocks:
  assumes "klass slf = PoloniexPrivateAPI" "timer_ident (coach slf) = None"
    "permits (coach slf) = 0"
  shows "call env slf command kwargs = (Blocked, slf, [Attempt])"
proof -
  let ?f = "\<lparr>self = slf,
      payload = \<lparr>p_timeout = timeout slf, p_url = PoloniexPrivateAPI_REQEUST_URL,
        p_params = None, p_data = None, p_headers = None\<rparr>,
      args = dict_set kwargs ''command'' (AStr command)\<rparr>"
  have m: "make_request env ?f = (Blocked, ?f\<lparr>payload := (payload ?f)\<lparr>p_data := Some TheArgs\<rparr>\<rparr>)"
    using assms by (simp add: make_request_def private_request_blocks)
  have r: "retrying (retries slf) (make_request env) \<lparr>state = ?f, log = []\<rparr> =
      (lift_outcome Blocked,
       \<lparr>state = ?f, log = []\<rparr>\<lparr>state := ?f\<lparr>payload := (payload ?f)\<lparr>p_data := Some TheArgs\<rparr>\<rparr>,
         log := log \<lparr>state = ?f, log = []\<rparr> @ [Attempt]\<rparr>)"
    by (rule retrying_first_settles) (simp_all add: m)
  show ?thesis
    using assms(1) by (simp add: call_def request_url_cases new_frame_def r)
qed

lemma Poloniex_request_without_lock:
  assumes "klass (self f) = Poloniex" "dict_get (args f) ''command'' = Inr (AStr c)"
    "c \<in> set PoloniexPrivateAPI_COMMANDS"
    "nonce_lock (self f) = None" "timer_ident (coach (self f)) = None"
    "0 < permits (coach (self f))"
  shows "make_request env f =
     (Raise (NoContextManager),
      f\<lparr>self := (self f)\<lparr>coach := (coach (self f))\<lparr>permits := permits (coach (self f)) - 1\<rparr>\<rparr>,
        payload := (payload f)\<lparr>p_data := Some TheArgs\<rparr>\<rparr>)"
proof -
  have "AStr c \<in> set (map AStr PoloniexPrivateAPI_COMMANDS)"
    using assms(3) by auto
  then have "make_request env f = PoloniexPrivateAPI_make_request env f"
    using assms(1,2) by (simp add: make_request_def Poloniex_make_request_def)
  then show ?thesis
    using private_request_without_lock[OF assms(4,5,6)] by simp
qed

text \<open>
  Claim C5.  On a client whose class is \<open>Poloniex\<close>, \<open>__call__\<close> raises \<open>KeyError\<close> for every
  command and every argument set: the client is left as it was (no permit taken, no nonce
  consumed, nothing handed to the session) and the retry wrapper is never entered (its log is
  empty).  Reaching the command through attribute lookup changes nothing: either the lookup
  itself raises, or the call raises \<open>KeyError\<close>.  The same holds for every class other than
  \<open>PoloniexPublicAPI\<close> and \<open>PoloniexPrivateAPI\<close>, the only two for which the dictionary of
  URLs has the key \<open>True\<close>.
\<close>

theorem Poloniex_call_raises_KeyError:
  "(klass slf = Poloniex \<longrightarrow>
      call env slf command kwargs = (Raise KeyError, slf, []) \<and>
      invoke env slf item kwargs =
        (case getattr slf item of
           Inl e \<Rightarrow> (Raise e, slf, [])
         | Inr c \<Rightarrow> (Raise KeyError, slf, [])))
   \<and> (klass slf \<noteq> PoloniexPublicAPI \<and> klass slf \<noteq> PoloniexPrivateAPI \<longrightarrow>
      call env slf command kwargs = (Raise KeyError, slf, []))
   \<and> request_url PoloniexPublicAPI = Inr PoloniexPublicAPI_REQEUST_URL
   \<and> request_url PoloniexPrivateAPI = Inr PoloniexPrivateAPI_REQEUST_URL"
  by (auto simp: call_def invoke_def request_url_cases split: sum.splits)

theorem Poloniex_call_raises_KeyError_witness:
  "call echo_env (Poloniex_init 100 (Some ''k'') (Some ''s'') None defaultRetries None None (Some False))
      ''buy'' [(''currencyPair'', AStr ''BTC_ETH'')] =
     (Raise KeyError,
      Poloniex_init 100 (Some ''k'') (Some ''s'') None defaultRetries None None (Some False), [])
   \<and> invoke echo_env
      (Poloniex_init 100 (Some ''k'') (Some ''s'') None defaultRetries None None (Some False))
      ''returnTicker'' [] =
     (Raise KeyError,
      Poloniex_init 100 (Some ''k'') (Some ''s'') None defaultRetries None None (Some False), [])"
proof -
  let ?c = "Poloniex_init 100 (Some ''k'') (Some ''s'') None defaultRetries None None (Some False)"
  have k: "klass ?c = Poloniex"
    by (simp add: Poloniex_init_def)
  have g: "getattr ?c ''returnTicker'' = Inr ''returnTicker''"
    by (simp add: Poloniex_init_def Poloniex_getattr_def PoloniexAPI_getattr_def
        PoloniexPrivateAPI_COMMANDS_def PoloniexPublicAPI_COMMANDS_def)
  note t = Poloniex_call_raises_KeyError[of ?c echo_env, THEN conjunct1, THEN mp, OF k]
  from t[of "''buy''" "[(''currencyPair'', AStr ''BTC_ETH'')]" "''returnTicker''"]
    t[of "''returnTicker''" "[]" "''returnTicker''"] g
  show ?thesis by simp
qed

text \<open>
  Claim C6.  Looking up a name that is not in the command registry of the client raises
  \<open>AttributeError\<close> wrapping a \<open>PoloniexError\<close>; so does looking up any name on a
  \<open>PoloniexPrivateAPI\<close> client whose key or secret is missing or empty (and a private command
  on a \<open>Poloniex\<close> client in that state).  Nothing else happens: the client is unchanged, so no
  permit is taken and nothing is handed to the session, and the retry wrapper is not entered.
\<close>

theorem configuration_errors_fail_fast:
  "(item \<notin> set (COMMANDS (klass slf)) \<longrightarrow>
      (\<exists>m. invoke env slf item kwargs =
         (Raise (AttributeErrorOf (PoloniexError m)), slf, [])))
   \<and> ((falsy (key slf) \<or> falsy (secret slf)) \<and>
       (klass slf = PoloniexPrivateAPI \<or>
        klass slf = Poloniex \<and> item \<in> set PoloniexPrivateAPI_COMMANDS) \<longrightarrow>
      invoke env slf item kwargs =
        (Raise (AttributeErrorOf (PoloniexError ''An Api Key and Secret needed!'')), slf, []))"
proof (intro conjI impI)
  assume "item \<notin> set (COMMANDS (klass slf))"
  from getattr_unknown[OF this] obtain m
    where "getattr slf item = Inl (AttributeErrorOf (PoloniexError m))" by blast
  then show "\<exists>m. invoke env slf item kwargs =
         (Raise (AttributeErrorOf (PoloniexError m)), slf, [])"
    by (simp add: invoke_def)
next
  assume "(falsy (key slf) \<or> falsy (secret slf)) \<and>
       (klass slf = PoloniexPrivateAPI \<or>
        klass slf = Poloniex \<and> item \<in> set PoloniexPrivateAPI_COMMANDS)"
  then have "getattr slf item =
      Inl (AttributeErrorOf (PoloniexError ''An Api Key and Secret needed!''))"
    by (intro getattr_no_credentials) blast+
  then show "invoke env slf item kwargs =
        (Raise (AttributeErrorOf (PoloniexError ''An Api Key and Secret needed!'')), slf, [])"
    by (simp add: invoke_def)
qed

theorem configuration_errors_fail_fast_witness:
  "(\<exists>m. invoke echo_env (PoloniexPublicAPI_init None defaultRetries None) ''buy'' [] =
      (Raise (AttributeErrorOf (PoloniexError m)),
       PoloniexPublicAPI_init None defaultRetries None, []))
   \<and> invoke echo_env
       (PoloniexPrivateAPI_init 100 (Some ''k'') None None defaultRetries None None (Some False))
       ''returnBalances'' [] =
      (Raise (AttributeErrorOf (PoloniexError ''An Api Key and Secret needed!'')),
       PoloniexPrivateAPI_init 100 (Some ''k'') None None defaultRetries None None (Some False),
       [])"
proof
  let ?c = "PoloniexPublicAPI_init None defaultRetries None"
  have "''buy'' \<notin> set (COMMANDS (klass ?c))"
    by (simp add: PoloniexPublicAPI_init_def PoloniexPublicAPI_COMMANDS_def)
  from configuration_errors_fail_fast[of "''buy''" ?c echo_env "[]", THEN conjunct1, THEN mp, OF this]
  show "\<exists>m. invoke echo_env ?c ''buy'' [] = (Raise (AttributeErrorOf (PoloniexError m)), ?c, [])" .
next
  let ?c = "PoloniexPrivateAPI_init 100 (Some ''k'') None None defaultRetries None None (Some False)"
  have "(falsy (key ?c) \<or> falsy (secret ?c)) \<and>
       (klass ?c = PoloniexPrivateAPI \<or>
        klass ?c = Poloniex \<and> ''returnBalances'' \<in> set PoloniexPrivateAPI_COMMANDS)"
    by (simp add: PoloniexPrivateAPI_init_def PoloniexPublicAPI_init_def falsy_def)
  from configuration_errors_fail_fast[of "''returnBalances''" ?c echo_env "[]", THEN conjunct2, THEN mp, OF this]
  show "invoke echo_env ?c ''returnBalances'' [] =
      (Raise (AttributeErrorOf (PoloniexError ''An Api Key and Secret needed!'')), ?c, [])" .
qed

text \<open>
  Claim C7, which the code does not meet.  The timer is not running after construction, as
  claimed.  But \<open>wait\<close> starts the timer only if \<open>timer.ident is not None\<close>, that is only if
  it has been started already; so \<open>wait\<close> never changes whether the timer runs, and after the
  first \<open>wait\<close> on a fresh enforcer a permit is taken and the timer is still not started.
\<close>

theorem wait_leaves_timer_unstarted:
  "timer_ident (RateLimitEnforcer n) = None
   \<and> timer_ident (snd (wait e)) = timer_ident e
   \<and> wait (RateLimitEnforcer 6) = (Return (), \<lparr>callLimit = 6, permits = 5, timer_ident = None\<rparr>)"
  by (simp add: wait_timer) (simp add: RateLimitEnforcer_def wait_def semaphore_acquire_def)

text \<open>
  Claim C10, as stated, fails for the class \<open>Poloniex\<close>: a private request on a
  \<open>Poloniex\<close> client built without a lock raises \<open>KeyError\<close> in \<open>__call__\<close>, before the
  rate gate, and takes no permit.
\<close>

theorem Poloniex_without_lock_fails_before_gate:
  "invoke echo_env
     (Poloniex_init 100 (Some ''k'') (Some ''s'') None defaultRetries None None None)
     ''buy'' [] =
   (Raise KeyError,
    Poloniex_init 100 (Some ''k'') (Some ''s'') None defaultRetries None None None, [])
   \<and> permits (coach (Poloniex_init 100 (Some ''k'') (Some ''s'') None defaultRetries None None None)) = 6"
  by (simp add: invoke_def call_def request_url_cases Poloniex_init_def PoloniexPrivateAPI_init_def
      PoloniexPublicAPI_init_def Poloniex_getattr_def PoloniexPrivateAPI_getattr_def
      PoloniexAPI_getattr_def falsy_def PoloniexPrivateAPI_COMMANDS_def
      PoloniexPublicAPI_COMMANDS_def RateLimitEnforcer_def)

text \<open>
  Claim C10, amended.  A \<open>PoloniexPrivateAPI\<close> or \<open>Poloniex\<close> client built without the
  \<open>nonce_lock\<close> argument stores \<open>None\<close>, and no request changes that.  On a client of class
  \<open>PoloniexPrivateAPI\<close> every request that the rate gate lets through (timer not started,
  a permit free) then fails on entering \<open>with self.nonce_lock\<close>: one permit is gone, the nonce
  is untouched and nothing was handed to the session; a request that finds no permit waits
  in the gate, with nothing consumed.  On a client of class \<open>Poloniex\<close> the same failure is
  that of \<open>_make_request\<close> for a private command.
\<close>

theorem private_request_without_nonce_lock:
  "nonce_lock (PoloniexPrivateAPI_init now k s t r c sn None) = None
   \<and> nonce_lock (Poloniex_init now k s t r c sn None) = None
   \<and> (klass slf = PoloniexPrivateAPI \<and> nonce_lock slf = None \<and>
       timer_ident (coach slf) = None \<and> 0 < permits (coach slf) \<longrightarrow>
      call env slf command kwargs =
        (Raise (NoContextManager),
         slf\<lparr>coach := (coach slf)\<lparr>permits := permits (coach slf) - 1\<rparr>\<rparr>, [Attempt]))
   \<and> (klass slf = PoloniexPrivateAPI \<and> timer_ident (coach slf) = None \<and>
       permits (coach slf) = 0 \<longrightarrow>
      call env slf command kwargs = (Blocked, slf, [Attempt]))
   \<and> (klass (self f) = Poloniex \<and> dict_get (args f) ''command'' = Inr (AStr cmd) \<and>
       cmd \<in> set PoloniexPrivateAPI_COMMANDS \<and> nonce_lock (self f) = None \<and>
       timer_ident (coach (self f)) = None \<and> 0 < permits (coach (self f)) \<longrightarrow>
      make_request env f =
        (Raise (NoContextManager),
         f\<lparr>self := (self f)\<lparr>coach := (coach (self f))\<lparr>permits := permits (coach (self f)) - 1\<rparr>\<rparr>,
           payload := (payload f)\<lparr>p_data := Some TheArgs\<rparr>\<rparr>))"
proof (intro conjI impI)
  show "nonce_lock (PoloniexPrivateAPI_init now k s t r c sn None) = None"
    by (simp add: PoloniexPrivateAPI_init_def)
  show "nonce_lock (Poloniex_init now k s t r c sn None) = None"
    by (simp add: Poloniex_init_def PoloniexPrivateAPI_init_def)
next
  assume "klass slf = PoloniexPrivateAPI \<and> nonce_lock slf = None \<and>
       timer_ident (coach slf) = None \<and> 0 < permits (coach slf)"
  then show "call env slf command kwargs =
        (Raise (NoContextManager),
         slf\<lparr>coach := (coach slf)\<lparr>permits := permits (coach slf) - 1\<rparr>\<rparr>, [Attempt])"
    by (intro call_private_without_lock) simp_all
next
  assume "klass slf = PoloniexPrivateAPI \<and> timer_ident (coach slf) = None \<and>
       permits (coach slf) = 0"
  then show "call env slf command kwargs = (Blocked, slf, [Attempt])"
    by (intro call_private_blocks) simp_all
next
  assume "klass (self f) = Poloniex \<and> dict_get (args f) ''command'' = Inr (AStr cmd) \<and>
       cmd \<in> set PoloniexPrivateAPI_COMMANDS \<and> nonce_lock (self f) = None \<and>
       timer_ident (coach (self f)) = None \<and> 0 < permits (coach (self f))"
  then show "make_request env f =
        (Raise (NoContextManager),
         f\<lparr>self := (self f)\<lparr>coach := (coach (self f))\<lparr>permits := permits (coach (self f)) - 1\<rparr>\<rparr>,
           payload := (payload f)\<lparr>p_data := Some TheArgs\<rparr>\<rparr>)"
    by (intro Poloniex_request_without_lock[where c = cmd]) blast+
qed

theorem private_request_without_nonce_lock_witness:
  "call echo_env
     (PoloniexPrivateAPI_init 100 (Some ''k'') (Some ''s'') None defaultRetries None None None)
     ''buy'' [] =
   (Raise (NoContextManager),
    \<lparr>klass = PoloniexPrivateAPI, timeout = None, retries = [0, 2, 5, 30],
     coach = \<lparr>callLimit = 6, permits = 5, timer_ident = None\<rparr>,
     key = Some ''k'', secret = Some ''s'', nonce = 100, nonce_lock = None, sent = []\<rparr>,
    [Attempt])"
proof -
  let ?c = "PoloniexPrivateAPI_init 100 (Some ''k'') (Some ''s'') None defaultRetries None None None"
  have h: "klass ?c = PoloniexPrivateAPI \<and> nonce_lock ?c = None \<and>
       timer_ident (coach ?c) = None \<and> 0 < permits (coach ?c)"
    by (simp add: PoloniexPrivateAPI_init_def PoloniexPublicAPI_init_def RateLimitEnforcer_def)
  note t = private_request_without_nonce_lock[of _ _ _ _ _ _ _ ?c echo_env "''buy''" "[]",
      THEN conjunct2, THEN conjunct2, THEN conjunct1, THEN mp, OF h]
  show ?thesis unfolding t
    by (simp add: PoloniexPrivateAPI_init_def PoloniexPublicAPI_init_def RateLimitEnforcer_def
        defaultRetries_def)
qed

section \<open>Properties of requests\<close>

lemma private_attempt:
  assumes "nonce_lock (self f) = Some False" "timer_ident (coach (self f)) = None"
    "0 < permits (coach (self f))" "secret (self f) = Some sk"
    "signature env f sk = Inr digest"
  shows "PoloniexPrivateAPI_make_request env f =
    (let n = nonce (self f) + 1;
         req = signed_request f digest;
         f' = f\<lparr>payload := (payload f)\<lparr>p_data := Some TheArgs, p_headers := rq_headers req\<rparr>,
                args := dict_set (args f) ''nonce'' (AInt n)\<rparr>;
         slf = (self f)\<lparr>coach := (coach (self f))\<lparr>permits := permits (coach (self f)) - 1\<rparr>,
                       sent := sent (self f) @ [req]\<rparr>
     in case transport env (sent (self f)) req of
          Fails x \<Rightarrow> (Raise x, f'\<lparr>self := slf\<lparr>nonce := n\<rparr>\<rparr>)
        | Responds resp \<Rightarrow>
            (fst (handleResponse resp n), f'\<lparr>self := slf\<lparr>nonce := snd (handleResponse resp n)\<rparr>\<rparr>))"
  using assms
  by (simp add: PoloniexPrivateAPI_make_request_unfold wait_def semaphore_acquire_def
      set_coach_def set_lock_def exit_coach_def send_and_handle_def session_send_def
      handle_result_def request_of_def signed_request_def signature_def Let_def
      split: http_result.splits prod.splits)


lemma extends_refl: "extends f f"
  by (simp add: extends_def)

lemma extends_trans: "extends a b \<Longrightarrow> extends b c \<Longrightarrow> extends a c"
  by (auto simp: extends_def)

lemma wait_permits: "permits (snd (wait e)) \<le> permits e"
  by (auto simp: wait_def timer_start_def semaphore_acquire_def split: option.splits)

lemma send_and_handle_extends: "extends f (snd (send_and_handle env meth f))"
  by (auto simp: send_and_handle_def session_send_def handle_result_def extends_def Let_def
      split: http_result.splits prod.splits)

lemma extends_set_coach:
  "extends f g \<Longrightarrow> permits e \<le> permits (coach (self g)) \<Longrightarrow> extends f (set_coach g e)"
  by (auto simp: extends_def set_coach_def)

lemma extends_set_lock: "extends f g \<Longrightarrow> extends f (set_lock g b)"
  by (auto simp: extends_def set_lock_def)

lemma public_extends: "extends f (snd (PoloniexPublicAPI_make_request env f))"
proof -
  let ?f1 = "f\<lparr>payload := (payload f)\<lparr>p_params := Some TheArgs\<rparr>\<rparr>"
  obtain r e where w: "wait (coach (self ?f1)) = (r, e)" by (cases "wait (coach (self ?f1))")
  have pe: "permits e \<le> permits (coach (self f))"
    using wait_permits[of "coach (self ?f1)"] w by simp
  have b: "extends f (set_coach ?f1 e)"
    using pe by (simp add: extends_def set_coach_def)
  show ?thesis
  proof (cases r)
    case (Return u)
    obtain r2 f2 where s: "send_and_handle env ''get'' (set_coach ?f1 e) = (r2, f2)"
      by (cases "send_and_handle env ''get'' (set_coach ?f1 e)")
    have "extends (set_coach ?f1 e) f2"
      using send_and_handle_extends[of "set_coach ?f1 e" env "''get''"] s by simp
    with b have "extends f f2" by (rule extends_trans)
    then have "extends f (set_coach f2 (exit_coach (coach (self f2))))"
      by (rule extends_set_coach) (simp add: exit_coach_def)
    then show ?thesis
      using w Return s by (simp add: PoloniexPublicAPI_make_request_def)
  next
    case (Raise x)
    then show ?thesis using w b by (simp add: PoloniexPublicAPI_make_request_def)
  next
    case Blocked
    then show ?thesis using w b by (simp add: PoloniexPublicAPI_make_request_def)
  qed
qed

lemma private_step_extends: "extends f (fst (private_step env (f, p)))"
proof (cases p)
  case AtGate
  obtain r e where w: "wait (coach (self f)) = (r, e)" by (cases "wait (coach (self f))")
  have "permits e \<le> permits (coach (self f))"
    using wait_permits[of "coach (self f)"] w by simp
  then have "extends f (set_coach f e)" by (simp add: extends_def set_coach_def)
  then show ?thesis using AtGate w by (cases r) (simp_all add: private_step_simps)
next
  case AtSend
  have "extends f (snd (session_send env ''post'' f))"
    by (simp add: session_send_def extends_def)
  then show ?thesis using AtSend by (simp add: private_step_simps case_prod_beta)
next
  case (AtResponse h)
  have "extends f (snd (handle_result h f))"
    by (cases h) (simp_all add: handle_result_def extends_def case_prod_beta)
  then show ?thesis using AtResponse by (simp add: private_step_simps case_prod_beta)
qed (auto simp: private_step_simps extends_def set_lock_def set_coach_def exit_coach_def
    split: option.splits sum.splits)

lemma run_alone_extends: "extends (fst fp) (fst (run_alone k env fp))"
proof (induction k arbitrary: fp)
  case 0
  show ?case by (simp add: extends_refl)
next
  case (Suc k)
  obtain f p where fp: "fp = (f, p)" by (cases fp)
  have "extends f (fst (private_step env (f, p)))" by (rule private_step_extends)
  moreover have "extends (fst (private_step env (f, p)))
      (fst (run_alone k env (private_step env (f, p))))" by (rule Suc.IH)
  ultimately show ?case unfolding fp by (simp add: extends_trans)
qed

lemma private_extends: "extends f (snd (PoloniexPrivateAPI_make_request env f))"
  using run_alone_extends[of "(f, AtData)" 11 env]
  by (simp add: PoloniexPrivateAPI_make_request_def case_prod_beta)

lemma make_request_extends: "extends f (snd (make_request env f))"
  by (cases "klass (self f)")
    (auto simp: make_request_def Poloniex_make_request_def extends_refl public_extends
      private_extends split: sum.splits)

lemma retry_loop_extends:
  assumes "\<And>s. R s (snd (func s))" "\<And>s. R s s" "\<And>a b c. R a b \<Longrightarrow> R b c \<Longrightarrow> R a c"
  shows "R (state w) (state (snd (retry_loop func ds ps w)))
     \<and> (\<exists>es. log (snd (retry_loop func ds ps w)) = log w @ es)"
proof (induction ds arbitrary: ps w)
  case Nil
  show ?case using assms(2) by simp
next
  case (Cons d ds)
  obtain r s' where f: "func (state w) = (r, s')" by (cases "func (state w)")
  have rs: "R (state w) s'" using assms(1)[of "state w"] f by simp
  show ?case
  proof (cases "transient r \<and> d \<noteq> None")
    case False
    then show ?thesis using f rs
      by (cases r rule: transient.cases; cases d) simp_all
  next
    case True
    then obtain m dl where r: "r = Raise (RequestException m)" and d: "d = Some dl"
      by (auto simp: transient_iff)
    let ?w = "w\<lparr>state := s', log := log w @ [Attempt, Sleep dl]\<rparr>"
    have step: "retry_loop func (d # ds) ps w = retry_loop func ds (ps @ [RequestException m]) ?w"
      using f r d by simp
    from Cons.IH[where ps = "ps @ [RequestException m]" and w = ?w]
    have ih: "R s' (state (snd (retry_loop func ds (ps @ [RequestException m]) ?w)))"
      and lg: "\<exists>es. log (snd (retry_loop func ds (ps @ [RequestException m]) ?w)) = log ?w @ es"
      by simp_all
    from assms(3)[OF rs ih] lg show ?thesis unfolding step by auto
  qed
qed

lemma map_of_dict_set: "map_of (dict_set d k v) k = Some v"
  by (induction d k v rule: dict_set.induct) simp_all

lemma nonce_of_signed_request: "nonce_of (signed_request f digest) = Some (nonce (self f) + 1)"
  by (simp add: nonce_of_def signed_request_def Let_def map_of_dict_set)

lemma startswith_append: "startswith (p @ s) p"
  by (induction p) simp_all

lemma startswith_contains: "startswith s sub \<Longrightarrow> str_contains s sub"
  by (cases s) (auto elim: startswith.elims)

lemma split_on_first:
  "sep \<notin> set a \<Longrightarrow> split_on sep (a @ sep # rest) = a # split_on sep rest"
  by (induction a) (auto split: list.splits)

lemma words_from_word:
  "\<forall>c\<in>set w. \<not> is_space c \<Longrightarrow> words_from cur (w @ rest) = words_from (cur @ w) rest"
  by (induction w arbitrary: cur) simp_all

lemma digit_not_special:
  "digit_of c = Some d \<Longrightarrow>
     \<not> is_space c \<and> \<not> int_space c \<and> c \<noteq> CHR ''.'' \<and> c \<noteq> CHR ''-'' \<and> c \<noteq> CHR ''+'' \<and>
     c \<noteq> CHR ''_''"
  by (auto simp: digit_of_def is_space_def int_space_def split: if_splits)

lemma digits_value_digits:
  "digits_value acc ds = Some v \<Longrightarrow> \<forall>c\<in>set ds. \<exists>d. digit_of c = Some d"
  by (induction ds arbitrary: acc) (auto split: option.splits)

lemma digits_of_digits:
  "\<forall>c\<in>set ds. \<exists>d. digit_of c = Some d \<Longrightarrow> ds \<noteq> [] \<or> after_digit \<Longrightarrow>
    digits_of after_digit ds = Some ds"
proof (induction ds arbitrary: after_digit)
  case Nil
  then show ?case by simp
next
  case (Cons c cs)
  from Cons.prems(1) obtain d where d: "digit_of c = Some d" by auto
  from digit_not_special[OF this] have u: "c \<noteq> CHR ''_''" by simp
  have "digits_of True cs = Some cs" using Cons.IH[of True] Cons.prems(1) by simp
  then show ?case using d u by simp
qed

lemma strip_int_word: "\<forall>c\<in>set s. \<not> int_space c \<Longrightarrow> strip_int s = s"
proof -
  assume a: "\<forall>c\<in>set s. \<not> int_space c"
  have d: "dropWhile int_space xs = xs" if "\<forall>c\<in>set xs. \<not> int_space c" for xs
    using that by (cases xs) simp_all
  have "dropWhile int_space (rev s) = rev s" using a by (intro d) simp
  then show ?thesis using d[OF a] by (simp add: strip_int_def)
qed

lemma py_int_digits:
  assumes "digits_value 0 ds = Some v" "ds \<noteq> []" "length ds \<le> max_str_digits"
  shows "py_int ds = Some (int v)"
proof -
  obtain c cs where ds: "ds = c # cs" using assms(2) by (cases ds) auto
  have dig: "\<forall>c\<in>set ds. \<exists>d. digit_of c = Some d" by (rule digits_value_digits[OF assms(1)])
  then obtain d where "digit_of c = Some d" using ds by auto
  from digit_not_special[OF this] have sg: "c \<noteq> CHR ''-''" "c \<noteq> CHR ''+''" by simp_all
  have st: "strip_int ds = ds"
    using dig digit_not_special by (intro strip_int_word) blast
  have dg: "digits_of False ds = Some ds" using dig assms(2) by (intro digits_of_digits) simp_all
  show ?thesis
    using st dg sg assms(1,3) unfolding py_int_def ds by simp
qed

lemma nonce_from_error_form:
  assumes "digits_value 0 ds = Some v" "ds \<noteq> []" "length ds \<le> max_str_digits"
  shows "nonce_from_error (''Nonce must be greater than '' @ ds @ ''.'' @ rest) = Inr (int v)"
proof -
  from digits_value_digits[OF assms(1)]
  have dig: "\<forall>c\<in>set ds. \<not> is_space c \<and> c \<noteq> CHR ''.''"
    using digit_not_special by blast
  have nodot: "CHR ''.'' \<notin> set (''Nonce must be greater than '' @ ds)"
    using dig by auto
  have sp: "split_on CHR ''.'' ((''Nonce must be greater than '' @ ds) @ CHR ''.'' # rest)
      = (''Nonce must be greater than '' @ ds) # split_on CHR ''.'' rest"
    using nodot by (rule split_on_first)
  have w: "words_from [] (ds @ []) = words_from ([] @ ds) []"
    using dig by (intro words_from_word) blast
  have ws: "split_ws (''Nonce must be greater than '' @ ds) =
      [''Nonce'', ''must'', ''be'', ''greater'', ''than'', ds]"
    using w assms(2) by (simp add: split_ws_def is_space_def)
  show ?thesis
    using sp ws py_int_digits[OF assms] by (simp add: nonce_from_error_def)
qed

lemma nonce_error_contains:
  "str_contains (''Nonce must be greater than '' @ ds @ ''.'' @ rest) ''Nonce must be greater''"
  by (rule startswith_contains) simp

lemma handleResponse_undecodable:
  "decoded resp = None \<Longrightarrow>
    handleResponse resp n = (Raise (PoloniexError ''Invalid json response returned''), n)"
  by (simp add: handleResponse_def)

lemma map_of_key: "map_of kvs k = Some v \<Longrightarrow> k \<in> fst ` set kvs"
  by (induction kvs) (auto split: if_splits)

lemma handleResponse_error_string:
  assumes "decoded resp = Some (JObj kvs)" "map_of kvs ''error'' = Some (JStr s)"
    "\<not> str_contains s ''Nonce must be greater''"
  shows "handleResponse resp n =
    ((if str_contains (lower s) ''please try again''
      then Raise (RequestException (''PoloniexError '' @ s))
      else Raise (PoloniexError s)), n)"
  using assms map_of_key[OF assms(2)]
  by (simp add: handleResponse_def)

lemma handleResponse_nonce_error_general:
  assumes "decoded resp = Some (JObj kvs)" "map_of kvs ''error'' = Some (JStr s)"
    "str_contains s ''Nonce must be greater''" "nonce_from_error s = Inr m"
  shows "handleResponse resp n = (Raise (RequestException (''PoloniexError '' @ s)), m)"
  using assms map_of_key[OF assms(2)]
  by (simp add: handleResponse_def)

lemma handleResponse_nonce_error:
  assumes "decoded resp = Some (JObj kvs)"
    "map_of kvs ''error'' = Some (JStr (''Nonce must be greater than '' @ ds @ ''.'' @ rest))"
    "digits_value 0 ds = Some v" "ds \<noteq> []" "length ds \<le> max_str_digits"
  shows "handleResponse resp n =
     (Raise (RequestException
        (''PoloniexError '' @ ''Nonce must be greater than '' @ ds @ ''.'' @ rest)), int v)"
  using assms(1,2) nonce_error_contains nonce_from_error_form[OF assms(3,4,5)]
  by (rule handleResponse_nonce_error_general)

lemma handleResponse_nonce_error_12345:
  "decoded resp = Some (JObj [(''error'',
      JStr ''Nonce must be greater than 12345. You provided 12300.'')]) \<Longrightarrow>
   handleResponse resp n =
     (Raise (RequestException
        ''PoloniexError Nonce must be greater than 12345. You provided 12300.''), 12345)"
  by (simp add: handleResponse_def nonce_from_error_def split_ws_def is_space_def py_int_def
      strip_int_def int_space_def max_str_digits_def digit_of_def)

lemma retry_loop_first_call:
  assumes "\<And>s. R s (snd (func s))" "\<And>s. R s s" "\<And>a b c. R a b \<Longrightarrow> R b c \<Longrightarrow> R a c"
    and f: "func (state w) = (r, s')"
  shows "R s' (state (snd (retry_loop func (x # xs) ps w)))
     \<and> (\<exists>es. log (snd (retry_loop func (x # xs) ps w)) = log w @ Attempt # es)"
proof (cases "transient r \<and> x \<noteq> None")
  case False
  then show ?thesis using f assms(2)
    by (cases r rule: transient.cases; cases x) simp_all
next
  case True
  then obtain m dl where r: "r = Raise (RequestException m)" and d: "x = Some dl"
    by (auto simp: transient_iff)
  let ?w = "w\<lparr>state := s', log := log w @ [Attempt, Sleep dl]\<rparr>"
  have step: "retry_loop func (x # xs) ps w = retry_loop func xs (ps @ [RequestException m]) ?w"
    using f r d by simp
  have "R (state ?w) (state (snd (retry_loop func xs (ps @ [RequestException m]) ?w)))
     \<and> (\<exists>es. log (snd (retry_loop func xs (ps @ [RequestException m]) ?w)) = log ?w @ es)"
    using assms(1,2,3) by (rule retry_loop_extends)
  then show ?thesis unfolding step by auto
qed

lemma snoc_None_is_Cons: "\<exists>x xs. map Some ds @ [None] = x # xs"
  by (cases ds) simp_all

text \<open>
  The nonce error where the signer accepts the strings, as that of Python 2 does.  A client
  of class \<open>PoloniexPrivateAPI\<close> with a free lock, a secret, at least one configured delay and
  two free permits makes a request, and the server answers the first request with an error
  of the form \<open>Nonce must be greater than N. ...\<close>, where \<open>N\<close> is written in decimal digits.
  Then the first attempt raises \<open>RequestException\<close> and leaves the stored nonce at \<open>N\<close>; the
  wrapper sleeps the first delay and runs \<open>_make_request\<close> again, which takes a second permit
  and hands the session a second request; that request carries the nonce \<open>N + 1\<close> and the
  digest of the arguments with this nonce.
\<close>

lemma nonce_error_resynchronises_when_signed:
  assumes k: "klass slf = PoloniexPrivateAPI"
    and l: "nonce_lock slf = Some False"
    and s: "secret slf = Some sk"
    and sg: "\<And>m. \<exists>digest. hmac_sha512_hexdigest env sk m = Inr digest"
    and t: "timer_ident (coach slf) = None"
    and p: "2 \<le> permits (coach slf)"
    and r: "retries slf = d # ds"
    and dec: "decoded resp = Some (JObj kvs)"
    and err: "map_of kvs ''error'' =
        Some (JStr (''Nonce must be greater than '' @ num @ ''.'' @ rest))"
    and dv: "digits_value 0 num = Some v" and ne: "num \<noteq> []"
    and len: "length num \<le> max_str_digits"
    and tr: "\<forall>req. transport env (sent slf) req = Responds resp"
  shows "\<exists>f1 req1 req2 a digest res slf' es more.
      make_request env (new_frame slf PoloniexPrivateAPI_REQEUST_URL command kwargs) =
        (Raise (RequestException
           (''PoloniexError '' @ ''Nonce must be greater than '' @ num @ ''.'' @ rest)), f1)
    \<and> nonce (self f1) = int v
    \<and> call env slf command kwargs = (res, slf', Attempt # Sleep d # Attempt # es)
    \<and> sent slf' = sent slf @ req1 # req2 # more
    \<and> nonce_of req1 = Some (nonce slf + 1)
    \<and> nonce_of req2 = Some (int v + 1)
    \<and> rq_data req2 = Some a
    \<and> hmac_sha512_hexdigest env sk (urlencode env a) = Inr digest
    \<and> rq_headers req2 = Some [(''Sign'', Some digest), (''Key'', key slf)]
    \<and> permits (coach slf') + 2 \<le> permits (coach slf)"
proof -
  let ?f0 = "new_frame slf PoloniexPrivateAPI_REQEUST_URL command kwargs"
  let ?msg = "''PoloniexError '' @ ''Nonce must be greater than '' @ num @ ''.'' @ rest"
  let ?mr = "make_request env"
  have self0: "self ?f0 = slf" by (simp add: new_frame_def)
  have mr: "\<And>f. klass (self f) = PoloniexPrivateAPI \<Longrightarrow>
      make_request env f = PoloniexPrivateAPI_make_request env f"
    by (simp add: make_request_def)
  \<comment> \<open>the first attempt\<close>
  obtain digest1 where d1: "signature env ?f0 sk = Inr digest1"
    using sg unfolding signature_def by blast
  define req1 where "req1 = signed_request ?f0 digest1"
  define f1 where "f1 = snd (?mr ?f0)"
  have a1: "?mr ?f0 =
      (Raise (RequestException ?msg),
       ?f0\<lparr>payload := (payload ?f0)\<lparr>p_data := Some TheArgs, p_headers := rq_headers req1\<rparr>,
           args := dict_set (args ?f0) ''nonce'' (AInt (nonce slf + 1)),
           self := slf\<lparr>coach := (coach slf)\<lparr>permits := permits (coach slf) - 1\<rparr>,
                       sent := sent slf @ [req1], nonce := int v\<rparr>\<rparr>)"
  proof -
    have "PoloniexPrivateAPI_make_request env ?f0 =
      (let n = nonce (self ?f0) + 1;
         req = signed_request ?f0 digest1;
         f' = ?f0\<lparr>payload := (payload ?f0)\<lparr>p_data := Some TheArgs, p_headers := rq_headers req\<rparr>,
                args := dict_set (args ?f0) ''nonce'' (AInt n)\<rparr>;
         slf = (self ?f0)\<lparr>coach := (coach (self ?f0))\<lparr>permits := permits (coach (self ?f0)) - 1\<rparr>,
                       sent := sent (self ?f0) @ [req]\<rparr>
       in case transport env (sent (self ?f0)) req of
          Fails x \<Rightarrow> (Raise x, f'\<lparr>self := slf\<lparr>nonce := n\<rparr>\<rparr>)
        | Responds resp \<Rightarrow>
            (fst (handleResponse resp n), f'\<lparr>self := slf\<lparr>nonce := snd (handleResponse resp n)\<rparr>\<rparr>))"
      by (rule private_attempt) (use l s t p d1 in \<open>simp_all add: self0\<close>)
    then show ?thesis
      using tr k
      by (simp add: mr self0 Let_def req1_def handleResponse_nonce_error[OF dec err dv ne len])
  qed
  have f1: "?mr ?f0 = (Raise (RequestException ?msg), f1)"
    using a1 by (simp add: f1_def)
  have f1_self: "self f1 = slf\<lparr>coach := (coach slf)\<lparr>permits := permits (coach slf) - 1\<rparr>,
                       sent := sent slf @ [req1], nonce := int v\<rparr>"
    using a1 by (simp add: f1_def)
  \<comment> \<open>the second attempt\<close>
  obtain digest2 where d2: "signature env f1 sk = Inr digest2"
    using sg unfolding signature_def by blast
  define req2 where "req2 = signed_request f1 digest2"
  define res2 where "res2 = fst (?mr f1)"
  define f2 where "f2 = snd (?mr f1)"
  have a2: "PoloniexPrivateAPI_make_request env f1 =
      (let n = nonce (self f1) + 1;
         req = signed_request f1 digest2;
         f' = f1\<lparr>payload := (payload f1)\<lparr>p_data := Some TheArgs, p_headers := rq_headers req\<rparr>,
                args := dict_set (args f1) ''nonce'' (AInt n)\<rparr>;
         slf = (self f1)\<lparr>coach := (coach (self f1))\<lparr>permits := permits (coach (self f1)) - 1\<rparr>,
                       sent := sent (self f1) @ [req]\<rparr>
       in case transport env (sent (self f1)) req of
          Fails x \<Rightarrow> (Raise x, f'\<lparr>self := slf\<lparr>nonce := n\<rparr>\<rparr>)
        | Responds resp \<Rightarrow>
            (fst (handleResponse resp n), f'\<lparr>self := slf\<lparr>nonce := snd (handleResponse resp n)\<rparr>\<rparr>))"
    by (rule private_attempt) (use l s t p d2 in \<open>simp_all add: f1_self\<close>)
  have f2_sent: "sent (self f2) = sent slf @ [req1, req2]"
    and f2_permits: "permits (coach (self f2)) = permits (coach slf) - 2"
    using a2 k
    by (simp_all add: f2_def mr f1_self Let_def req2_def split: http_result.splits)
  have f2: "?mr f1 = (res2, f2)" by (simp add: res2_def f2_def)
  \<comment> \<open>the wrapper\<close>
  let ?w0 = "\<lparr>state = ?f0, log = []\<rparr>"
  let ?w1 = "\<lparr>state = f1, log = [Attempt, Sleep d]\<rparr>"
  let ?ps = "[RequestException ?msg]"
  obtain x xs where rest: "map Some ds @ [None] = x # xs"
    using snoc_None_is_Cons by blast
  have unfold1: "retrying (d # ds) ?mr ?w0 = retry_loop ?mr (x # xs) ?ps ?w1"
    using f1 rest by (simp add: retrying_def)
  have "extends f2 (state (snd (retry_loop ?mr (x # xs) ?ps ?w1)))
     \<and> (\<exists>es. log (snd (retry_loop ?mr (x # xs) ?ps ?w1)) = log ?w1 @ Attempt # es)"
  proof (rule retry_loop_first_call)
    show "\<And>s. extends s (snd (?mr s))" by (rule make_request_extends)
    show "\<And>s. extends s s" by (rule extends_refl)
    show "\<And>a b c. extends a b \<Longrightarrow> extends b c \<Longrightarrow> extends a c" by (rule extends_trans)
    show "?mr (state ?w1) = (res2, f2)" using f2 by simp
  qed
  then obtain es more where
    lg: "log (snd (retrying (d # ds) ?mr ?w0)) = Attempt # Sleep d # Attempt # es"
    and snt: "sent (self (state (snd (retrying (d # ds) ?mr ?w0)))) = sent slf @ req1 # req2 # more"
    and prm: "permits (coach (self (state (snd (retrying (d # ds) ?mr ?w0))))) \<le> permits (coach slf) - 2"
    unfolding unfold1 by (auto simp: extends_def f2_sent f2_permits)
  obtain res w where rw: "retrying (d # ds) ?mr ?w0 = (res, w)"
    by (cases "retrying (d # ds) ?mr ?w0")
  have c: "call env slf command kwargs = (res, self (state w), Attempt # Sleep d # Attempt # es)"
    using k r rw lg by (simp add: call_def request_url_cases)
  have n1: "nonce_of req1 = Some (nonce slf + 1)"
    by (simp add: req1_def nonce_of_signed_request self0)
  have n2: "nonce_of req2 = Some (int v + 1)"
    by (simp add: req2_def nonce_of_signed_request f1_self)
  have d2': "rq_data req2 = Some (dict_set (args f1) ''nonce'' (AInt (int v + 1)))"
    and h2: "rq_headers req2 = Some [(''Sign'', Some digest2), (''Key'', key slf)]"
    by (simp_all add: req2_def signed_request_def Let_def f1_self)
  have s2: "hmac_sha512_hexdigest env sk
      (urlencode env (dict_set (args f1) ''nonce'' (AInt (int v + 1)))) = Inr digest2"
    using d2 by (simp add: signature_def f1_self)
  have pm: "permits (coach (self (state w))) + 2 \<le> permits (coach slf)"
    using prm rw p by simp
  have nf1: "nonce (self f1) = int v" by (simp add: f1_self)
  from f1 nf1 c snt rw n1 n2 d2' s2 h2 pm show ?thesis
    by (intro exI[of _ f1] exI[of _ req1] exI[of _ req2]
        exI[of _ "dict_set (args f1) ''nonce'' (AInt (int v + 1))"] exI[of _ digest2]
        exI[of _ res] exI[of _ "self (state w)"] exI[of _ es] exI[of _ more]) simp
qed

lemma trader_fields:
  "klass trader = PoloniexPrivateAPI" "nonce_lock trader = Some False"
  "secret trader = Some ''s''" "timer_ident (coach trader) = None"
  "permits (coach trader) = 6" "retries trader = 0 # [2, 5, 30]" "sent trader = []"
  "nonce trader = 12299" "key trader = Some ''k''"
  by (simp_all add: trader_def PoloniexPrivateAPI_init_def PoloniexPublicAPI_init_def
      RateLimitEnforcer_def defaultRetries_def)

text \<open>That run, evaluated with the signer that accepts strings: the two requests and the
  client afterwards.\<close>

lemma call_trader:
  "call nonce_error_env trader ''returnBalances'' [] =
    (Return (Some (JObj [])),
     \<lparr>klass = PoloniexPrivateAPI, timeout = None, retries = [0, 2, 5, 30],
      coach = \<lparr>callLimit = 6, permits = 4, timer_ident = None\<rparr>,
      key = Some ''k'', secret = Some ''s'', nonce = 12346, nonce_lock = Some False,
      sent =
        [\<lparr>rq_method = ''post'', rq_url = ''http://poloniex.com/tradingApi'',
          rq_timeout = None, rq_params = None,
          rq_data = Some [(''command'', AStr ''returnBalances''), (''nonce'', AInt 12300)],
          rq_headers = Some [(''Sign'', Some ''scommandnonce''), (''Key'', Some ''k'')]\<rparr>,
         \<lparr>rq_method = ''post'', rq_url = ''http://poloniex.com/tradingApi'',
          rq_timeout = None, rq_params = None,
          rq_data = Some [(''command'', AStr ''returnBalances''), (''nonce'', AInt 12346)],
          rq_headers = Some [(''Sign'', Some ''scommandnonce''), (''Key'', Some ''k'')]\<rparr>]\<rparr>,
     [Attempt, Sleep 0, Attempt])"
  by (simp add: call_def request_url_cases new_frame_def retrying_def make_request_def
      PoloniexPrivateAPI_make_request_unfold wait_def semaphore_acquire_def set_coach_def
      set_lock_def exit_coach_def send_and_handle_def session_send_def handle_result_def
      request_of_def handleResponse_def nonce_from_error_def
      split_ws_def is_space_def py_int_def strip_int_def int_space_def max_str_digits_def
      digit_of_def nonce_error_env_def python2_env_def nonce_error_first_def
      trader_def PoloniexPrivateAPI_init_def PoloniexPublicAPI_init_def RateLimitEnforcer_def
      defaultRetries_def PoloniexPrivateAPI_REQEUST_URL_def Let_def)



lemma private_request_effect:
  fixes env f
  defines "f' \<equiv> snd (PoloniexPrivateAPI_make_request env f)"
  shows "klass (self f') = klass (self f) \<and>
    ((sent (self f') = sent (self f) \<and>
          (nonce (self f') = nonce (self f) \<or> nonce (self f') = nonce (self f) + 1))
    \<or> (\<exists>digest.
          sent (self f') = sent (self f) @ [signed_request f digest] \<and>
          nonce (self f') =
            (case transport env (sent (self f)) (signed_request f digest) of
               Fails x \<Rightarrow> nonce (self f) + 1
             | Responds resp \<Rightarrow> snd (handleResponse resp (nonce (self f) + 1)))))"
proof -
  let ?f1 = "f\<lparr>payload := (payload f)\<lparr>p_data := Some TheArgs\<rparr>\<rparr>"
  obtain r e where w: "wait (coach (self ?f1)) = (r, e)" by (cases "wait (coach (self ?f1))")
  note u = f'_def PoloniexPrivateAPI_make_request_unfold
  show ?thesis
  proof (cases r)
    case (Raise x)
    then show ?thesis using w by (simp add: u set_coach_def)
  next
    case Blocked
    then show ?thesis using w by (simp add: u set_coach_def)
  next
    case (Return u1)
    show ?thesis
    proof (cases "nonce_lock (self f)")
      case None
      then show ?thesis using w Return by (simp add: u set_coach_def exit_coach_def)
    next
      case (Some held)
      show ?thesis
      proof (cases held)
        case True
        then show ?thesis using w Return Some by (simp add: u set_coach_def exit_coach_def)
      next
        case False
        show ?thesis
        proof (cases "secret (self f)")
          case None
          then show ?thesis using w Return Some False
            by (simp add: u set_coach_def set_lock_def exit_coach_def Let_def)
        next
          case sk: (Some sk)
          show ?thesis
          proof (cases "signature env f sk")
            case (Inl x)
            then show ?thesis using w Return Some False sk
              by (simp add: u set_coach_def set_lock_def exit_coach_def Let_def signature_def)
          next
            case (Inr digest)
            then have "klass (self f') = klass (self f)"
              and "sent (self f') = sent (self f) @ [signed_request f digest] \<and>
                nonce (self f') =
                  (case transport env (sent (self f)) (signed_request f digest) of
                     Fails x \<Rightarrow> nonce (self f) + 1
                   | Responds resp \<Rightarrow> snd (handleResponse resp (nonce (self f) + 1)))"
              using w Return Some False sk
              by (simp_all add: u set_coach_def set_lock_def exit_coach_def send_and_handle_def
                  session_send_def handle_result_def request_of_def signed_request_def
                  signature_def Let_def split: http_result.splits prod.splits)
            then show ?thesis by blast
          qed
        qed
      qed
    qed
  qed
qed

lemma map_filter_append:
  "List.map_filter g (xs @ ys) = List.map_filter g xs @ List.map_filter g ys"
  by (simp add: List.map_filter_def)

lemma in_order_snoc:
  assumes "sorted_wrt (<) xs" "list_all (\<lambda>n. n \<le> c) xs" "c < (v::int)" "v \<le> c'"
  shows "sorted_wrt (<) (xs @ [v]) \<and> list_all (\<lambda>n. n \<le> c') (xs @ [v])"
  using assms by (auto simp: sorted_wrt_append list_all_iff)

lemma keeps_order_refl: "keeps_order f f"
  by (simp add: keeps_order_def)

lemma keeps_order_trans: "keeps_order a b \<Longrightarrow> keeps_order b c \<Longrightarrow> keeps_order a c"
  by (auto simp: keeps_order_def)

lemma make_request_keeps_order:
  assumes "never_reports_below env"
  shows "keeps_order f (snd (make_request env f))"
  unfolding keeps_order_def
proof (intro impI)
  assume h: "klass (self f) = PoloniexPrivateAPI \<and> nonces_in_order (self f)"
  let ?f' = "snd (PoloniexPrivateAPI_make_request env f)"
  let ?n = "nonce (self f)"
  have mr: "snd (make_request env f) = ?f'" using h by (simp add: make_request_def)
  have srt: "sorted_wrt (<) (issued (self f))"
    and le: "list_all (\<lambda>n. n \<le> ?n) (issued (self f))"
    using h by (simp_all add: nonces_in_order_def)
  from private_request_effect[of env f]
  have kl: "klass (self ?f') = klass (self f)"
    and eff: "(sent (self ?f') = sent (self f) \<and> (nonce (self ?f') = ?n \<or> nonce (self ?f') = ?n + 1))
     \<or> (\<exists>digest.
          sent (self ?f') = sent (self f) @ [signed_request f digest] \<and>
          nonce (self ?f') =
            (case transport env (sent (self f)) (signed_request f digest) of
               Fails x \<Rightarrow> ?n + 1
             | Responds resp \<Rightarrow> snd (handleResponse resp (?n + 1))))"
    by simp_all
  from eff have "nonces_in_order (self ?f') \<and> ?n \<le> nonce (self ?f')"
  proof
    assume a: "sent (self ?f') = sent (self f) \<and> (nonce (self ?f') = ?n \<or> nonce (self ?f') = ?n + 1)"
    then have i: "issued (self ?f') = issued (self f)" by (simp add: issued_def)
    have "?n \<le> nonce (self ?f')" using a by auto
    moreover from this le have "list_all (\<lambda>n. n \<le> nonce (self ?f')) (issued (self f))"
      by (auto simp: list_all_iff)
    ultimately show ?thesis using srt by (simp add: nonces_in_order_def i)
  next
    assume "\<exists>digest.
          sent (self ?f') = sent (self f) @ [signed_request f digest] \<and>
          nonce (self ?f') =
            (case transport env (sent (self f)) (signed_request f digest) of
               Fails x \<Rightarrow> ?n + 1
             | Responds resp \<Rightarrow> snd (handleResponse resp (?n + 1)))"
    then obtain digest where
      s: "sent (self ?f') = sent (self f) @ [signed_request f digest]"
      and n: "nonce (self ?f') =
            (case transport env (sent (self f)) (signed_request f digest) of
               Fails x \<Rightarrow> ?n + 1
             | Responds resp \<Rightarrow> snd (handleResponse resp (?n + 1)))"
      by blast
    have i: "issued (self ?f') = issued (self f) @ [?n + 1]"
      by (simp add: issued_def s map_filter_append List.map_filter_simps
          nonce_of_signed_request)
    have up: "?n + 1 \<le> nonce (self ?f')"
    proof (cases "transport env (sent (self f)) (signed_request f digest)")
      case (Fails x)
      then show ?thesis using n by simp
    next
      case (Responds resp)
      with assms have "?n + 1 \<le> snd (handleResponse resp (?n + 1))"
        unfolding never_reports_below_def
        using nonce_of_signed_request[of f digest] by blast
      then show ?thesis using n Responds by simp
    qed
    have "sorted_wrt (<) (issued (self f) @ [?n + 1])
        \<and> list_all (\<lambda>n. n \<le> nonce (self ?f')) (issued (self f) @ [?n + 1])"
      using srt le _ up by (rule in_order_snoc) simp
    then show ?thesis using up by (simp add: nonces_in_order_def i)
  qed
  then show "klass (self (snd (make_request env f))) = PoloniexPrivateAPI \<and>
      nonces_in_order (self (snd (make_request env f))) \<and>
      nonce (self f) \<le> nonce (self (snd (make_request env f)))"
    using kl h by (simp add: mr)
qed

lemma call_keeps_order:
  assumes "never_reports_below env" "klass slf = PoloniexPrivateAPI" "nonces_in_order slf"
  shows "klass (fst (snd (call env slf command kwargs))) = PoloniexPrivateAPI
    \<and> nonces_in_order (fst (snd (call env slf command kwargs)))
    \<and> nonce slf \<le> nonce (fst (snd (call env slf command kwargs)))"
proof -
  let ?w0 = "\<lparr>state = new_frame slf PoloniexPrivateAPI_REQEUST_URL command kwargs, log = []\<rparr>"
  have "keeps_order (state ?w0)
      (state (snd (retry_loop (make_request env) (map Some (retries slf) @ [None]) [] ?w0)))
     \<and> (\<exists>es. log (snd (retry_loop (make_request env) (map Some (retries slf) @ [None]) [] ?w0))
          = log ?w0 @ es)"
  proof (rule retry_loop_extends)
    show "\<And>s. keeps_order s (snd (make_request env s))"
      using assms(1) by (rule make_request_keeps_order)
    show "\<And>s. keeps_order s s" by (rule keeps_order_refl)
    show "\<And>a b c. keeps_order a b \<Longrightarrow> keeps_order b c \<Longrightarrow> keeps_order a c"
      by (rule keeps_order_trans)
  qed
  then show ?thesis
    using assms(2,3)
    by (simp add: call_def request_url_cases retrying_def keeps_order_def new_frame_def
        case_prod_beta)
qed

lemma run_calls_keeps_order:
  assumes "never_reports_below env"
  shows "klass slf = PoloniexPrivateAPI \<Longrightarrow> nonces_in_order slf \<Longrightarrow>
    nonces_in_order (run_calls env slf cs) \<and> nonce slf \<le> nonce (run_calls env slf cs)"
proof (induction cs arbitrary: slf)
  case Nil
  then show ?case by simp
next
  case (Cons c cs)
  obtain command kwargs where c: "c = (command, kwargs)" by (cases c)
  let ?s = "fst (snd (call env slf command kwargs))"
  from call_keeps_order[OF assms Cons.prems, of command kwargs]
  have k: "klass ?s = PoloniexPrivateAPI" and o: "nonces_in_order ?s" and n: "nonce slf \<le> nonce ?s"
    by simp_all
  from Cons.IH[OF k o] n show ?case by (simp add: c)
qed

text \<open>
  Claim C2, as stated, fails: an error field that does not contain \<open>please try again\<close> need
  not raise \<open>PoloniexError\<close>.  The nonce error is such a field; it raises
  \<open>RequestException\<close>, which the wrapper retries.
\<close>

theorem nonce_error_is_retried_too:
  "\<not> str_contains (lower ''Nonce must be greater than 12345. You provided 12300.'')
       ''please try again''
   \<and> handleResponse (Response [] (Some (JObj [(''error'',
        JStr ''Nonce must be greater than 12345. You provided 12300.'')]))) 12300 =
     (Raise (RequestException
        ''PoloniexError Nonce must be greater than 12345. You provided 12300.''), 12345)
   \<and> transient (Raise (RequestException
        ''PoloniexError Nonce must be greater than 12345. You provided 12300.'') :: json outcome)"
  by (simp add: handleResponse_nonce_error_12345 lower_def lower_char_def)

text \<open>
  Claim C2, amended.  A response that cannot be decoded raises \<open>PoloniexError('Invalid json
  response returned')\<close>.  For a decoded object whose \<open>error\<close> member is a string: if the
  string does not contain \<open>Nonce must be greater\<close> and contains \<open>please try again\<close>, whatever
  the case of its letters, the response raises \<open>RequestException\<close>, the class of the failures
  of the network; if it contains neither, it raises \<open>PoloniexError\<close> with the string; if it
  contains \<open>Nonce must be greater\<close> and names a number, it raises \<open>RequestException\<close> too.
  The wrapper retries an outcome exactly if it is a \<open>RequestException\<close>; the first outcome
  that is not one ends the wrapper at once, with that outcome, with no sleep and no further
  call.
\<close>

theorem only_transient_failures_retried:
  "(decoded resp = None \<longrightarrow>
      handleResponse resp n = (Raise (PoloniexError ''Invalid json response returned''), n))
   \<and> (decoded resp = Some (JObj kvs) \<and> map_of kvs ''error'' = Some (JStr s) \<and>
       \<not> str_contains s ''Nonce must be greater'' \<longrightarrow>
      handleResponse resp n =
        ((if str_contains (lower s) ''please try again''
          then Raise (RequestException (''PoloniexError '' @ s))
          else Raise (PoloniexError s)), n))
   \<and> (decoded resp = Some (JObj kvs) \<and> map_of kvs ''error'' = Some (JStr s) \<and>
       str_contains s ''Nonce must be greater'' \<and> nonce_from_error s = Inr i \<longrightarrow>
      handleResponse resp n = (Raise (RequestException (''PoloniexError '' @ s)), i))
   \<and> (transient r \<longleftrightarrow> (\<exists>m. r = Raise (RequestException m)))
   \<and> (k \<le> length ds \<and> (\<forall>j<k. transient (fst (nth_call func j (state w)))) \<and>
       \<not> transient (fst (nth_call func k (state w))) \<longrightarrow>
      retrying ds func w =
        (lift_outcome (fst (nth_call func k (state w))),
         w\<lparr>state := snd (nth_call func k (state w)),
           log := log w @ attempts_with (take k ds)\<rparr>))"
proof (intro conjI impI)
  assume "decoded resp = None"
  then show "handleResponse resp n = (Raise (PoloniexError ''Invalid json response returned''), n)"
    by (rule handleResponse_undecodable)
next
  assume "decoded resp = Some (JObj kvs) \<and> map_of kvs ''error'' = Some (JStr s) \<and>
       \<not> str_contains s ''Nonce must be greater''"
  then show "handleResponse resp n =
        ((if str_contains (lower s) ''please try again''
          then Raise (RequestException (''PoloniexError '' @ s))
          else Raise (PoloniexError s)), n)"
    by (intro handleResponse_error_string) blast+
next
  assume "decoded resp = Some (JObj kvs) \<and> map_of kvs ''error'' = Some (JStr s) \<and>
       str_contains s ''Nonce must be greater'' \<and> nonce_from_error s = Inr i"
  then show "handleResponse resp n = (Raise (RequestException (''PoloniexError '' @ s)), i)"
    by (intro handleResponse_nonce_error_general) blast+
next
  show "transient r \<longleftrightarrow> (\<exists>m. r = Raise (RequestException m))" by (rule transient_iff)
next
  assume "k \<le> length ds \<and> (\<forall>j<k. transient (fst (nth_call func j (state w)))) \<and>
       \<not> transient (fst (nth_call func k (state w)))"
  then show "retrying ds func w =
        (lift_outcome (fst (nth_call func k (state w))),
         w\<lparr>state := snd (nth_call func k (state w)),
           log := log w @ attempts_with (take k ds)\<rparr>)"
    unfolding retrying_def by (intro retry_loop_settles) blast+
qed

theorem only_transient_failures_retried_witness:
  "handleResponse (Response ''<html>'' None) 7 =
     (Raise (PoloniexError ''Invalid json response returned''), 7)
   \<and> handleResponse (Response [] (Some (JObj [(''error'', JStr ''Please try again.'')]))) 7 =
     (Raise (RequestException ''PoloniexError Please try again.''), 7)
   \<and> handleResponse (Response [] (Some (JObj [(''error'', JStr ''Invalid order.'')]))) 7 =
     (Raise (PoloniexError ''Invalid order.''), 7)
   \<and> retrying [0, 2, 5] rejecting \<lparr>state = 0, log = []\<rparr> =
     (Raise (PoloniexError ''Invalid order.''), \<lparr>state = 1, log = [Attempt]\<rparr>)"
proof (intro conjI)
  have "decoded (Response ''<html>'' None) = None" by simp
  from only_transient_failures_retried[THEN conjunct1, THEN mp, OF this]
  show "handleResponse (Response ''<html>'' None) 7 =
     (Raise (PoloniexError ''Invalid json response returned''), 7)" .
next
  let ?r = "Response [] (Some (JObj [(''error'', JStr ''Please try again.'')]))"
  have "decoded ?r = Some (JObj [(''error'', JStr ''Please try again.'')]) \<and>
      map_of [(''error'', JStr ''Please try again.'')] ''error'' = Some (JStr ''Please try again.'') \<and>
      \<not> str_contains ''Please try again.'' ''Nonce must be greater''"
    by simp
  from only_transient_failures_retried[THEN conjunct2, THEN conjunct1, THEN mp, OF this, of 7]
  show "handleResponse ?r 7 = (Raise (RequestException ''PoloniexError Please try again.''), 7)"
    by (simp add: lower_def lower_char_def)
next
  let ?r = "Response [] (Some (JObj [(''error'', JStr ''Invalid order.'')]))"
  have "decoded ?r = Some (JObj [(''error'', JStr ''Invalid order.'')]) \<and>
      map_of [(''error'', JStr ''Invalid order.'')] ''error'' = Some (JStr ''Invalid order.'') \<and>
      \<not> str_contains ''Invalid order.'' ''Nonce must be greater''"
    by simp
  from only_transient_failures_retried[THEN conjunct2, THEN conjunct1, THEN mp, OF this, of 7]
  show "handleResponse ?r 7 = (Raise (PoloniexError ''Invalid order.''), 7)"
    by (simp add: lower_def lower_char_def)
next
  let ?w = "\<lparr>state = 0::nat, log = []\<rparr>"
  have "0 \<le> length [0::nat, 2, 5] \<and> (\<forall>j<0. transient (fst (nth_call rejecting j (state ?w)))) \<and>
       \<not> transient (fst (nth_call rejecting 0 (state ?w)))"
    by (simp add: rejecting_def)
  from only_transient_failures_retried[THEN conjunct2, THEN conjunct2, THEN conjunct2,
      THEN conjunct2, THEN mp, OF this]
  show "retrying [0, 2, 5] rejecting ?w =
     (Raise (PoloniexError ''Invalid order.''), \<lparr>state = 1, log = [Attempt]\<rparr>)"
    by (simp add: rejecting_def)
qed

text \<open>
  Both classifications on a public client with the default delays and a fresh enforcer: a
  server that always answers \<open>Please try again.\<close> is asked five times, with the four delays
  slept in between, before \<open>RetryException\<close> is raised; a server that answers \<open>Invalid
  order.\<close> is asked once.
\<close>

lemma public_call_try_again:
  "call (python3_env (\<lambda>h r. Responds (Response [] (Some (JObj [(''error'',
       JStr ''Please try again.'')])))))
     (PoloniexPublicAPI_init None defaultRetries None) ''returnTicker'' [] =
   (Raise (RetryException ''retries exhausted PoloniexError Please try again.''),
    (PoloniexPublicAPI_init None defaultRetries None)
      \<lparr>coach := \<lparr>callLimit = 6, permits = 1, timer_ident = None\<rparr>,
       sent := replicate 5
         \<lparr>rq_method = ''get'', rq_url = ''http://poloniex.com/public'', rq_timeout = None,
          rq_params = Some [(''command'', AStr ''returnTicker'')], rq_data = None,
          rq_headers = None\<rparr>\<rparr>,
    [Attempt, Sleep 0, Attempt, Sleep 2, Attempt, Sleep 5, Attempt, Sleep 30, Attempt])"
  by (simp add: call_def request_url_cases new_frame_def retrying_def make_request_def
      PoloniexPublicAPI_make_request_def wait_def semaphore_acquire_def set_coach_def
      exit_coach_def send_and_handle_def session_send_def handle_result_def request_of_def
      handleResponse_def lower_def lower_char_def
      python3_env_def PoloniexPublicAPI_init_def RateLimitEnforcer_def
      defaultRetries_def PoloniexPublicAPI_REQEUST_URL_def Let_def numeral_eq_Suc)

lemma public_call_invalid_order:
  "call (python3_env (\<lambda>h r. Responds (Response [] (Some (JObj [(''error'',
       JStr ''Invalid order.'')])))))
     (PoloniexPublicAPI_init None defaultRetries None) ''returnTicker'' [] =
   (Raise (PoloniexError ''Invalid order.''),
    (PoloniexPublicAPI_init None defaultRetries None)
      \<lparr>coach := \<lparr>callLimit = 6, permits = 5, timer_ident = None\<rparr>,
       sent :=
         [\<lparr>rq_method = ''get'', rq_url = ''http://poloniex.com/public'', rq_timeout = None,
          rq_params = Some [(''command'', AStr ''returnTicker'')], rq_data = None,
          rq_headers = None\<rparr>]\<rparr>,
    [Attempt])"
  by (simp add: call_def request_url_cases new_frame_def retrying_def make_request_def
      PoloniexPublicAPI_make_request_def wait_def semaphore_acquire_def set_coach_def
      exit_coach_def send_and_handle_def session_send_def handle_result_def request_of_def
      handleResponse_def lower_def lower_char_def
      python3_env_def PoloniexPublicAPI_init_def RateLimitEnforcer_def
      defaultRetries_def PoloniexPublicAPI_REQEUST_URL_def Let_def)

text \<open>
  Claim C4, as stated, fails: the forced resynchronisation stores whatever number the error
  message names.  \<open>_handleResponse\<close> on a client whose stored nonce is 20000, given the error
  naming 12345, leaves the stored nonce at 12345.  Where the signer accepts the strings, a
  client whose stored nonce is 20000 sends the nonce 20001, is answered with that error, and
  sends 12346 next: the stored nonce went down and the second nonce handed out is below the
  first.
\<close>

theorem resynchronisation_can_lower_nonce:
  "handleResponse (Response [] (Some (JObj [(''error'',
        JStr ''Nonce must be greater than 12345. You provided 12300.'')]))) 20000 =
     (Raise (RequestException
        ''PoloniexError Nonce must be greater than 12345. You provided 12300.''), 12345)
   \<and> nonce late_trader = 20000
   \<and> issued (fst (snd (call nonce_error_env late_trader ''returnBalances'' []))) = [20001, 12346]
   \<and> nonce (fst (snd (call nonce_error_env late_trader ''returnBalances'' []))) = 12346"
  by (simp add: call_def request_url_cases new_frame_def retrying_def make_request_def
      PoloniexPrivateAPI_make_request_unfold wait_def semaphore_acquire_def set_coach_def
      set_lock_def exit_coach_def send_and_handle_def session_send_def handle_result_def
      request_of_def handleResponse_def nonce_from_error_def
      split_ws_def is_space_def py_int_def strip_int_def int_space_def max_str_digits_def
      digit_of_def nonce_error_env_def python2_env_def nonce_error_first_def
      late_trader_def PoloniexPrivateAPI_init_def PoloniexPublicAPI_init_def RateLimitEnforcer_def
      defaultRetries_def PoloniexPrivateAPI_REQEUST_URL_def Let_def issued_def nonce_of_def
      List.map_filter_simps)

text \<open>
  Claim C4, amended.  The forced resynchronisation stores the number parsed from the error
  message as it is, whether it is above or below the stored nonce.  Every request that gets
  as far as the session carries the stored nonce plus one.  So, for a client of class
  \<open>PoloniexPrivateAPI\<close> whose nonces are in order, and a transport whose replies never make
  the client store a nonce below the one the request carried, after any sequence of calls
  every nonce handed out is strictly greater than every one handed out before, none is above
  the stored nonce, and the stored nonce has not decreased.
\<close>

theorem nonces_increase_when_server_reports_upward:
  "(decoded resp = Some (JObj kvs) \<and> map_of kvs ''error'' = Some (JStr s) \<and>
      str_contains s ''Nonce must be greater'' \<and> nonce_from_error s = Inr m \<longrightarrow>
      handleResponse resp n = (Raise (RequestException (''PoloniexError '' @ s)), m))
   \<and> (klass slf = PoloniexPrivateAPI \<and> never_reports_below env \<and> nonces_in_order slf \<longrightarrow>
      sorted_wrt (<) (issued (run_calls env slf cs)) \<and>
      list_all (\<lambda>i. i \<le> nonce (run_calls env slf cs)) (issued (run_calls env slf cs)) \<and>
      nonce slf \<le> nonce (run_calls env slf cs))"
proof (intro conjI impI)
  assume "decoded resp = Some (JObj kvs) \<and> map_of kvs ''error'' = Some (JStr s) \<and>
      str_contains s ''Nonce must be greater'' \<and> nonce_from_error s = Inr m"
  then show "handleResponse resp n = (Raise (RequestException (''PoloniexError '' @ s)), m)"
    by (intro handleResponse_nonce_error_general) blast+
next
  assume h: "klass slf = PoloniexPrivateAPI \<and> never_reports_below env \<and> nonces_in_order slf"
  then have "nonces_in_order (run_calls env slf cs) \<and> nonce slf \<le> nonce (run_calls env slf cs)"
    by (intro run_calls_keeps_order) blast+
  then show "sorted_wrt (<) (issued (run_calls env slf cs))"
    "list_all (\<lambda>i. i \<le> nonce (run_calls env slf cs)) (issued (run_calls env slf cs))"
    "nonce slf \<le> nonce (run_calls env slf cs)"
    by (simp_all add: nonces_in_order_def)
qed

lemma strict_server_never_reports_below: "never_reports_below strict_server_env"
  unfolding never_reports_below_def
proof (intro allI impI)
  fix h req resp n
  assume t: "transport strict_server_env h req = Responds resp" and q: "nonce_of req = Some n"
  show "n \<le> snd (handleResponse resp n)"
  proof (cases "n \<le> 12345")
    case True
    with t q have "decoded resp = Some (JObj [(''error'',
        JStr ''Nonce must be greater than 12345. You provided 12300.'')])"
      by (auto simp: strict_server_env_def python2_env_def strict_server_def)
    from handleResponse_nonce_error_12345[OF this, of n] True show ?thesis by simp
  next
    case False
    with t q have "resp = Response ''{}'' (Some (JObj []))"
      by (auto simp: strict_server_env_def python2_env_def strict_server_def)
    then show ?thesis by (simp add: handleResponse_def)
  qed
qed

theorem nonces_increase_when_server_reports_upward_witness:
  "sorted_wrt (<)
     (issued (run_calls strict_server_env trader [(''returnBalances'', []), (''buy'', [])]))
   \<and> list_all
       (\<lambda>i. i \<le> nonce (run_calls strict_server_env trader [(''returnBalances'', []), (''buy'', [])]))
       (issued (run_calls strict_server_env trader [(''returnBalances'', []), (''buy'', [])]))
   \<and> nonce trader
       \<le> nonce (run_calls strict_server_env trader [(''returnBalances'', []), (''buy'', [])])"
proof -
  have "klass trader = PoloniexPrivateAPI \<and> never_reports_below strict_server_env \<and>
      nonces_in_order trader"
    by (simp add: trader_fields strict_server_never_reports_below nonces_in_order_def issued_def
        List.map_filter_simps)
  from nonces_increase_when_server_reports_upward[THEN conjunct2, THEN mp, OF this]
  show ?thesis .
qed

lemma strict_server_run:
  "issued (run_calls strict_server_env trader [(''returnBalances'', []), (''buy'', [])]) =
     [12300, 12346, 12347]"
  by (simp add: call_def request_url_cases new_frame_def retrying_def make_request_def
      PoloniexPrivateAPI_make_request_unfold wait_def semaphore_acquire_def set_coach_def
      set_lock_def exit_coach_def send_and_handle_def session_send_def handle_result_def
      request_of_def handleResponse_def nonce_from_error_def
      split_ws_def is_space_def py_int_def strip_int_def int_space_def max_str_digits_def
      digit_of_def strict_server_env_def python2_env_def strict_server_def
      trader_def PoloniexPrivateAPI_init_def PoloniexPublicAPI_init_def RateLimitEnforcer_def
      defaultRetries_def PoloniexPrivateAPI_REQEUST_URL_def Let_def issued_def nonce_of_def
      List.map_filter_simps)

section \<open>Properties of the rate gate\<close>

lemma wake_effect:
  "wake k e = (m, e') \<Longrightarrow>
     m \<le> permits e \<and> m \<le> k \<and> permits e' = permits e - m \<and> callLimit e' = callLimit e
     \<and> timer_ident e' = timer_ident e"
proof (induction k arbitrary: e m e')
  case 0
  then show ?case by simp
next
  case (Suc k)
  show ?case
  proof (cases "permits e = 0")
    case True
    with Suc.prems show ?thesis by (simp add: semaphore_acquire_def)
  next
    case False
    let ?e1 = "e\<lparr>permits := permits e - 1\<rparr>"
    obtain m1 e1 where w: "wake k ?e1 = (m1, e1)" by (cases "wake k ?e1")
    from Suc.IH[OF w] have ih: "m1 \<le> permits ?e1" "m1 \<le> k" "permits e1 = permits ?e1 - m1"
      "callLimit e1 = callLimit ?e1" "timer_ident e1 = timer_ident ?e1" by simp_all
    from Suc.prems False w have "m = Suc m1" "e' = e1" by (simp_all add: semaphore_acquire_def)
    with ih False show ?thesis by simp
  qed
qed

lemma wait_effect:
  "wait e = (Return u, e') \<Longrightarrow> 0 < permits e \<and> permits e' = permits e - 1 \<and> callLimit e' = callLimit e"
  "wait e = (Blocked, e') \<Longrightarrow> e' = e \<and> permits e = 0"
  "wait e = (Raise x, e') \<Longrightarrow> e' = e"
  by (auto simp: wait_def timer_start_def semaphore_acquire_def split: option.splits if_splits)

lemma gate_step_window:
  assumes "ev \<noteq> Timer_fires"
  shows "returned (gate_step g ev) + permits (enforcer_of (gate_step g ev))
           = returned g + permits (enforcer_of g)
       \<and> returned g \<le> returned (gate_step g ev)
       \<and> waiting g \<le> waiting (gate_step g ev)
       \<and> callLimit (enforcer_of (gate_step g ev)) = callLimit (enforcer_of g)"
proof (cases ev)
  case Calls_wait
  obtain r e where w: "wait (enforcer_of g) = (r, e)" by (cases "wait (enforcer_of g)")
  show ?thesis using Calls_wait w
    by (cases r) (auto dest: wait_effect)
next
  case Calls_exit
  then show ?thesis by (simp add: exit_coach_def)
next
  case Timer_fires
  with assms show ?thesis by simp
qed

lemma gate_run_window:
  "Timer_fires \<notin> set es \<Longrightarrow>
     returned (gate_run g es) + permits (enforcer_of (gate_run g es))
           = returned g + permits (enforcer_of g)
       \<and> returned g \<le> returned (gate_run g es)
       \<and> waiting g \<le> waiting (gate_run g es)
       \<and> callLimit (enforcer_of (gate_run g es)) = callLimit (enforcer_of g)"
proof (induction es arbitrary: g)
  case Nil
  then show ?case by (simp add: gate_run_def)
next
  case (Cons ev es)
  then have ne: "ev \<noteq> Timer_fires" and rest: "Timer_fires \<notin> set es" by auto
  from gate_step_window[OF ne, of g] Cons.IH[OF rest, of "gate_step g ev"]
  show ?case by (simp add: gate_run_def)
qed

lemma timer_fires_effect:
  "returned (gate_step g Timer_fires) + permits (enforcer_of (gate_step g Timer_fires))
     = returned g + callLimit (enforcer_of g)"
proof -
  obtain m e where w: "wake (waiting g) (semaphore_clear (enforcer_of g)) = (m, e)"
    by (cases "wake (waiting g) (semaphore_clear (enforcer_of g))")
  from wake_effect[OF w] show ?thesis using w by (simp add: semaphore_clear_def)
qed

text \<open>
  Claim C8.  \<open>__exit__\<close> gives no permit back: it changes nothing.  So in any run of events
  in which the timer does not fire, the permits only go down, the calls of \<open>wait\<close> that
  return are at most the permits there were, and no waiting caller is released.  Counted from
  a firing of the timer (which releases waiting callers first), and counted from the
  construction of the enforcer, at most \<open>callLimit\<close> calls of \<open>wait\<close> return until the timer
  fires again; once the permits are used up every further call of \<open>wait\<close> waits.
\<close>

theorem permits_return_only_with_timer:
  "exit_coach e = e
   \<and> gate_step g Calls_exit = g
   \<and> (Timer_fires \<notin> set es \<longrightarrow>
        returned (gate_run g es) \<le> returned g + permits (enforcer_of g) \<and>
        permits (enforcer_of (gate_run g es)) \<le> permits (enforcer_of g) \<and>
        waiting g \<le> waiting (gate_run g es))
   \<and> (Timer_fires \<notin> set es \<longrightarrow>
        returned (gate_run (gate_step g Timer_fires) es) \<le> returned g + callLimit (enforcer_of g))
   \<and> (Timer_fires \<notin> set es \<longrightarrow> returned (gate_run (new_gate limit) es) \<le> limit)
   \<and> (permits (enforcer_of g) = 0 \<and> timer_ident (enforcer_of g) = None \<longrightarrow>
        gate_step g Calls_wait = g\<lparr>waiting := waiting g + 1\<rparr>)"
proof (intro conjI impI)
  show "exit_coach e = e" by (simp add: exit_coach_def)
  show "gate_step g Calls_exit = g" by (simp add: exit_coach_def)
next
  assume a: "Timer_fires \<notin> set es"
  from gate_run_window[OF a, of g]
  show "returned (gate_run g es) \<le> returned g + permits (enforcer_of g)"
    "permits (enforcer_of (gate_run g es)) \<le> permits (enforcer_of g)"
    "waiting g \<le> waiting (gate_run g es)"
    by linarith+
next
  assume a: "Timer_fires \<notin> set es"
  from gate_run_window[OF a, of "gate_step g Timer_fires"] timer_fires_effect[of g]
  show "returned (gate_run (gate_step g Timer_fires) es) \<le> returned g + callLimit (enforcer_of g)"
    by linarith
next
  assume a: "Timer_fires \<notin> set es"
  from gate_run_window[OF a, of "new_gate limit"]
  show "returned (gate_run (new_gate limit) es) \<le> limit"
    by (simp add: new_gate_def RateLimitEnforcer_def)
next
  assume "permits (enforcer_of g) = 0 \<and> timer_ident (enforcer_of g) = None"
  then show "gate_step g Calls_wait = g\<lparr>waiting := waiting g + 1\<rparr>"
    by (simp add: wait_def semaphore_acquire_def)
qed

theorem permits_return_only_with_timer_witness:
  "gate_run (new_gate 2) [Calls_wait, Calls_exit, Calls_wait, Calls_exit, Calls_wait, Calls_wait] =
     \<lparr>enforcer_of = \<lparr>callLimit = 2, permits = 0, timer_ident = None\<rparr>, waiting = 2, returned = 2\<rparr>
   \<and> returned (gate_run (new_gate 2)
       [Calls_wait, Calls_exit, Calls_wait, Calls_exit, Calls_wait, Calls_wait]) \<le> 2
   \<and> gate_run (new_gate 2)
       [Calls_wait, Calls_wait, Calls_wait, Calls_wait, Calls_wait, Timer_fires, Calls_wait] =
     \<lparr>enforcer_of = \<lparr>callLimit = 2, permits = 0, timer_ident = None\<rparr>, waiting = 2, returned = 4\<rparr>"
proof (intro conjI)
  let ?es = "[Calls_wait, Calls_exit, Calls_wait, Calls_exit, Calls_wait, Calls_wait]"
  have "Timer_fires \<notin> set ?es" by simp
  from permits_return_only_with_timer[THEN conjunct2, THEN conjunct2, THEN conjunct2,
      THEN conjunct2, THEN conjunct1, THEN mp, OF this]
  show "returned (gate_run (new_gate 2) ?es) \<le> 2" .
qed (simp_all add: gate_run_def new_gate_def RateLimitEnforcer_def wait_def
    semaphore_acquire_def semaphore_clear_def exit_coach_def)

section \<open>Properties of concurrent private requests\<close>

lemma thread_step_proj:
  "shared (thread_step env s t) = self (fst (private_step env (frame_of s t, at (threads s t))))"
  "threads (thread_step env s t) =
     (threads s)(t :=
        \<lparr>its_payload = payload (fst (private_step env (frame_of s t, at (threads s t)))),
         its_args = args (fst (private_step env (frame_of s t, at (threads s t)))),
         at = snd (private_step env (frame_of s t, at (threads s t)))\<rparr>)"
  "consumed (thread_step env s t) =
     (case at (threads s t) of AtWrite n \<Rightarrow> consumed s @ [n + 1] | _ \<Rightarrow> consumed s)"
  by (simp_all add: thread_step_def case_prod_beta)

lemma in_block_places:
  "p \<in> {AtAttach, AtSign, AtSend} \<Longrightarrow> in_block p"
  "p \<in> {AtSign, AtSend} \<Longrightarrow> in_block p"
  by auto

lemma issued_same: "sent c' = sent c \<Longrightarrow> issued c' = issued c"
  by (simp add: issued_def)

lemma issued_simps:
  "issued (c\<lparr>nonce := n\<rparr>) = issued c" "issued (c\<lparr>coach := e\<rparr>) = issued c"
  "issued (c\<lparr>nonce_lock := l\<rparr>) = issued c"
  by (simp_all add: issued_def)

lemma sends_in_order_start:
  "nonce_lock slf \<noteq> Some True \<Longrightarrow> sends_in_order (start slf calls)"
  by (simp add: sends_in_order_def lock_spans_def pending_def prepared_def start_def)

text \<open>A step of a thread that is outside the block before and after it, and that leaves
  the lock, the nonce, the requests sent and the nonces consumed as they are.\<close>

lemma keeps_outside:
  assumes inv: "sends_in_order s"
    and th: "threads s' = (threads s)(t := th')"
    and out: "\<not> in_block (at (threads s t))" "\<not> in_block (at th')"
    and same: "nonce_lock (shared s') = nonce_lock (shared s)"
      "nonce (shared s') = nonce (shared s)" "sent (shared s') = sent (shared s)"
      "consumed s' = consumed s"
    and data: "has_data (at th') \<longrightarrow> p_data (its_payload th') = Some TheArgs"
  shows "sends_in_order s'"
proof -
  from inv have one: "\<And>u v. in_block (at (threads s u)) \<Longrightarrow> in_block (at (threads s v)) \<Longrightarrow> u = v"
    and held: "(\<exists>u. in_block (at (threads s u))) \<longleftrightarrow> nonce_lock (shared s) = Some True"
    and sq: "subseq (issued (shared s)) (consumed s)"
    and pd: "pending s" and pr: "prepared s"
    by (auto simp: sends_in_order_def lock_spans_def)
  have iss: "issued (shared s') = issued (shared s)" using same(3) by (rule issued_same)
  have blk: "in_block (at (threads s' u)) \<longleftrightarrow> in_block (at (threads s u))" for u
    using out by (simp add: th)
  have a: "lock_spans s'"
    unfolding lock_spans_def blk same(1) using one held by blast
  have aw: "awaiting_send s' = awaiting_send s"
    by (simp add: awaiting_send_def same iss)
  have b: "pending s'"
    unfolding pending_def
  proof (intro allI)
    fix u
    show "(\<forall>n. at (threads s' u) = AtWrite n \<longrightarrow> n = nonce (shared s')) \<and>
          (at (threads s' u) \<in> {AtAttach, AtSign, AtSend} \<longrightarrow> awaiting_send s') \<and>
          (at (threads s' u) \<in> {AtSign, AtSend} \<longrightarrow> carries_nonce s' u)"
    proof (cases "u = t")
      case True
      then show ?thesis using out(2) by (auto simp: th)
    next
      case False
      then have "threads s' u = threads s u" by (simp add: th)
      then show ?thesis using pd by (simp add: pending_def aw carries_nonce_def same)
    qed
  qed
  have c: "prepared s'"
    unfolding prepared_def using pr data by (simp add: th prepared_def)
  show ?thesis using a b c sq by (simp add: sends_in_order_def iss same)
qed

text \<open>A step of the thread inside the block that stays inside it.\<close>

lemma keeps_inside:
  assumes inv: "sends_in_order s"
    and th: "threads s' = (threads s)(t := th')"
    and ins: "in_block (at (threads s t))" "in_block (at th')"
    and lock: "nonce_lock (shared s') = nonce_lock (shared s)"
    and data: "has_data (at th') \<longrightarrow> p_data (its_payload th') = Some TheArgs"
    and sq: "subseq (issued (shared s')) (consumed s')"
    and pd: "\<forall>n. at th' = AtWrite n \<longrightarrow> n = nonce (shared s')"
      "at th' \<in> {AtAttach, AtSign, AtSend} \<longrightarrow> awaiting_send s'"
      "at th' \<in> {AtSign, AtSend} \<longrightarrow> carries_nonce s' t"
  shows "sends_in_order s'"
proof -
  from inv have one: "\<And>u v. in_block (at (threads s u)) \<Longrightarrow> in_block (at (threads s v)) \<Longrightarrow> u = v"
    and held: "(\<exists>u. in_block (at (threads s u))) \<longleftrightarrow> nonce_lock (shared s) = Some True"
    and pr: "prepared s"
    by (auto simp: sends_in_order_def lock_spans_def)
  have only: "in_block (at (threads s u)) \<longleftrightarrow> u = t" for u
    using one[of u t] ins(1) by auto
  have blk: "in_block (at (threads s' u)) \<longleftrightarrow> u = t" for u
    using only[of u] ins(2) by (simp add: th)
  have a: "lock_spans s'"
    unfolding lock_spans_def blk lock using held ins(1) by auto
  have b: "pending s'"
    unfolding pending_def
  proof (intro allI)
    fix u
    show "(\<forall>n. at (threads s' u) = AtWrite n \<longrightarrow> n = nonce (shared s')) \<and>
          (at (threads s' u) \<in> {AtAttach, AtSign, AtSend} \<longrightarrow> awaiting_send s') \<and>
          (at (threads s' u) \<in> {AtSign, AtSend} \<longrightarrow> carries_nonce s' u)"
    proof (cases "u = t")
      case True
      then show ?thesis using pd by (simp add: th)
    next
      case False
      then have "\<not> in_block (at (threads s' u))" by (simp add: blk)
      then show ?thesis by auto
    qed
  qed
  have c: "prepared s'"
    unfolding prepared_def using pr data by (simp add: th prepared_def)
  show ?thesis using a b c sq by (simp add: sends_in_order_def)
qed

text \<open>Taking the lock, and freeing it.\<close>

lemma keeps_entering:
  assumes inv: "sends_in_order s"
    and th: "threads s' = (threads s)(t := th')"
    and was: "nonce_lock (shared s) \<noteq> Some True"
    and now: "nonce_lock (shared s') = Some True" "at th' = AtRead"
    and same: "sent (shared s') = sent (shared s)" "consumed s' = consumed s"
    and data: "p_data (its_payload th') = Some TheArgs"
  shows "sends_in_order s'"
proof -
  from inv have held: "(\<exists>u. in_block (at (threads s u))) \<longleftrightarrow> nonce_lock (shared s) = Some True"
    and sq: "subseq (issued (shared s)) (consumed s)" and pr: "prepared s"
    by (auto simp: sends_in_order_def lock_spans_def)
  have nobody: "\<not> in_block (at (threads s u))" for u using held was by blast
  have blk: "in_block (at (threads s' u)) \<longleftrightarrow> u = t" for u
    using nobody[of u] now(2) by (simp add: th)
  have a: "lock_spans s'" unfolding lock_spans_def blk now(1) by auto
  have b: "pending s'"
    unfolding pending_def
  proof (intro allI)
    fix u
    show "(\<forall>n. at (threads s' u) = AtWrite n \<longrightarrow> n = nonce (shared s')) \<and>
          (at (threads s' u) \<in> {AtAttach, AtSign, AtSend} \<longrightarrow> awaiting_send s') \<and>
          (at (threads s' u) \<in> {AtSign, AtSend} \<longrightarrow> carries_nonce s' u)"
    proof (cases "u = t")
      case True
      then show ?thesis using now(2) by (simp add: th)
    next
      case False
      then have "\<not> in_block (at (threads s' u))" by (simp add: blk)
      then show ?thesis by auto
    qed
  qed
  have c: "prepared s'"
    unfolding prepared_def using pr data by (simp add: th prepared_def)
  show ?thesis using a b c sq by (simp add: sends_in_order_def issued_same[OF same(1)] same(2))
qed

lemma keeps_leaving:
  assumes inv: "sends_in_order s"
    and th: "threads s' = (threads s)(t := th')"
    and was: "in_block (at (threads s t))"
    and now: "nonce_lock (shared s') = Some False" "\<not> in_block (at th')"
    and same: "sent (shared s') = sent (shared s)" "consumed s' = consumed s"
    and data: "has_data (at th') \<longrightarrow> p_data (its_payload th') = Some TheArgs"
  shows "sends_in_order s'"
proof -
  from inv have one: "\<And>u v. in_block (at (threads s u)) \<Longrightarrow> in_block (at (threads s v)) \<Longrightarrow> u = v"
    and sq: "subseq (issued (shared s)) (consumed s)" and pr: "prepared s"
    by (auto simp: sends_in_order_def lock_spans_def)
  have only: "in_block (at (threads s u)) \<longleftrightarrow> u = t" for u
    using one[of u t] was by auto
  have blk: "\<not> in_block (at (threads s' u))" for u
    using only[of u] now(2) by (simp add: th)
  have a: "lock_spans s'" unfolding lock_spans_def using blk now(1) by simp
  have b: "pending s'"
    unfolding pending_def
  proof (intro allI)
    fix u
    have "\<not> in_block (at (threads s' u))" by (rule blk)
    then show "(\<forall>n. at (threads s' u) = AtWrite n \<longrightarrow> n = nonce (shared s')) \<and>
          (at (threads s' u) \<in> {AtAttach, AtSign, AtSend} \<longrightarrow> awaiting_send s') \<and>
          (at (threads s' u) \<in> {AtSign, AtSend} \<longrightarrow> carries_nonce s' u)"
      by auto
  qed
  have c: "prepared s'"
    unfolding prepared_def using pr data by (simp add: th prepared_def)
  show ?thesis using a b c sq by (simp add: sends_in_order_def issued_same[OF same(1)] same(2))
qed

lemma request_carries_nonce:
  assumes "p_data (payload f) = Some TheArgs" "map_of (args f) ''nonce'' = Some (AInt n)"
  shows "nonce_of (request_of meth f) = Some n"
  using assms by (simp add: nonce_of_def request_of_def)

lemma issued_after_send:
  assumes "p_data (payload f) = Some TheArgs" "map_of (args f) ''nonce'' = Some (AInt n)"
  shows "issued (self (snd (session_send env meth f))) = issued (self f) @ [n]"
  using request_carries_nonce[OF assms, of meth]
  by (simp add: issued_def session_send_def map_filter_append List.map_filter_simps)

lemma sends_in_order_step:
  assumes inv: "sends_in_order s"
  shows "sends_in_order (thread_step env s t)"
proof -
  let ?th = "threads s t"
  let ?s' = "thread_step env s t"
  note proj = thread_step_proj(1,3) private_step_simps frame_of_def
  from inv have sq: "subseq (issued (shared s)) (consumed s)"
    and held: "(\<exists>u. in_block (at (threads s u))) \<longleftrightarrow> nonce_lock (shared s) = Some True"
    by (auto simp: sends_in_order_def lock_spans_def)
  from inv have "pending s" by (simp add: sends_in_order_def)
  then have pw: "\<And>n. at ?th = AtWrite n \<Longrightarrow> n = nonce (shared s)"
    and pa: "at ?th \<in> {AtAttach, AtSign, AtSend} \<Longrightarrow> awaiting_send s"
    and pc: "at ?th \<in> {AtSign, AtSend} \<Longrightarrow> carries_nonce s t"
    by (auto simp: pending_def)
  from inv have "prepared s" by (simp add: sends_in_order_def)
  then have dat: "has_data (at ?th) \<Longrightarrow> p_data (its_payload ?th) = Some TheArgs"
    by (simp add: prepared_def)
  have locked: "in_block (at ?th) \<Longrightarrow> nonce_lock (shared s) = Some True"
    using held by blast
  show ?thesis
  proof (cases "at ?th")
    case AtData
    show ?thesis
      by (rule keeps_outside[OF inv thread_step_proj(2)]) (simp_all add: proj AtData)
  next
    case AtGate
    obtain r e where w: "wait (coach (shared s)) = (r, e)" by (cases "wait (coach (shared s))")
    have d: "p_data (its_payload ?th) = Some TheArgs" using dat AtGate by simp
    show ?thesis
    proof (cases r)
      case (Return u)
      show ?thesis
        by (rule keeps_outside[OF inv thread_step_proj(2)])
          (simp_all add: proj AtGate w Return d set_coach_def)
    next
      case (Raise x)
      show ?thesis
        by (rule keeps_outside[OF inv thread_step_proj(2)])
          (simp_all add: proj AtGate w Raise d set_coach_def)
    next
      case Blocked
      show ?thesis
        by (rule keeps_outside[OF inv thread_step_proj(2)])
          (simp_all add: proj AtGate w Blocked d set_coach_def)
    qed
  next
    case AtLock
    have d: "p_data (its_payload ?th) = Some TheArgs" using dat AtLock by simp
    show ?thesis
    proof (cases "nonce_lock (shared s)")
      case None
      show ?thesis
        by (rule keeps_outside[OF inv thread_step_proj(2)]) (simp_all add: proj AtLock None d)
    next
      case (Some h)
      show ?thesis
      proof (cases h)
        case True
        show ?thesis
          by (rule keeps_outside[OF inv thread_step_proj(2)])
            (simp_all add: proj AtLock Some True d)
      next
        case False
        show ?thesis
          by (rule keeps_entering[OF inv thread_step_proj(2)])
            (simp_all add: proj AtLock Some False d set_lock_def)
      qed
    qed
  next
    case AtRead
    have d: "p_data (its_payload ?th) = Some TheArgs" using dat AtRead by simp
    show ?thesis
      by (rule keeps_inside[OF inv thread_step_proj(2)]) (simp_all add: proj AtRead d sq)
  next
    case (AtWrite n)
    have d: "p_data (its_payload ?th) = Some TheArgs" using dat AtWrite by simp
    have sq': "subseq (issued (shared s)) (consumed s @ [n + 1])"
      using sq by (rule subseq_rev_drop_many)
    show ?thesis
      by (rule keeps_inside[OF inv thread_step_proj(2)])
        (simp_all add: proj AtWrite d sq sq' awaiting_send_def issued_simps)
  next
    case AtAttach
    have d: "p_data (its_payload ?th) = Some TheArgs" using dat AtAttach by simp
    have aw: "awaiting_send s" using pa AtAttach by simp
    then have aw': "awaiting_send ?s'"
      by (simp add: awaiting_send_def proj AtAttach issued_simps)
    show ?thesis
      by (rule keeps_inside[OF inv thread_step_proj(2)])
        (simp_all add: proj AtAttach d sq aw' carries_nonce_def thread_step_proj(2)
          map_of_dict_set issued_simps)
  next
    case AtSign
    have d: "p_data (its_payload ?th) = Some TheArgs" using dat AtSign by simp
    have aw: "awaiting_send s" using pa AtSign by simp
    have cn: "carries_nonce s t" using pc AtSign by simp
    show ?thesis
    proof (cases "secret (shared s)")
      case None
      show ?thesis
        by (rule keeps_inside[OF inv thread_step_proj(2)])
          (simp_all add: proj AtSign None d sq)
    next
      case (Some sk)
      show ?thesis
      proof (cases "hmac_sha512_hexdigest env sk (urlencode env (its_args ?th))")
        case (Inl x)
        show ?thesis
          by (rule keeps_inside[OF inv thread_step_proj(2)])
            (simp_all add: proj AtSign Some Inl d sq)
      next
        case (Inr digest)
        have aw': "awaiting_send ?s'"
          using aw by (simp add: awaiting_send_def proj AtSign Some Inr)
        have cn': "carries_nonce ?s' t"
          using cn by (simp add: carries_nonce_def proj AtSign Some Inr thread_step_proj(2))
        show ?thesis
          by (rule keeps_inside[OF inv thread_step_proj(2)])
            (simp_all add: proj AtSign Some Inr d sq aw' cn')
      qed
    qed
  next
    case AtSend
    have d: "p_data (payload (frame_of s t)) = Some TheArgs"
      using dat AtSend by (simp add: frame_of_def)
    have cn: "map_of (args (frame_of s t)) ''nonce'' = Some (AInt (nonce (shared s)))"
      using pc AtSend by (simp add: carries_nonce_def frame_of_def)
    from pa AtSend obtain pre where c: "consumed s = pre @ [nonce (shared s)]"
      and sp: "subseq (issued (shared s)) pre"
      by (auto simp: awaiting_send_def)
    have "issued (self (snd (session_send env ''post'' (frame_of s t)))) =
        issued (self (frame_of s t)) @ [nonce (shared s)]"
      using d cn by (rule issued_after_send)
    then have i: "issued (shared ?s') = issued (shared s) @ [nonce (shared s)]"
      by (simp add: thread_step_proj(1) private_step_simps AtSend case_prod_beta frame_of_def)
    have sq': "subseq (issued (shared ?s')) (consumed ?s')"
      unfolding i using sp by (simp add: thread_step_proj(3) AtSend c list_emb_append_mono)
    have l: "nonce_lock (shared ?s') = nonce_lock (shared s)"
      by (simp add: proj AtSend session_send_def)
    show ?thesis
      by (rule keeps_inside[OF inv thread_step_proj(2)])
        (simp_all add: l sq' private_step_simps AtSend case_prod_beta session_send_def
          frame_of_def dat)
  next
    case (AtResponse h)
    have d: "p_data (its_payload ?th) = Some TheArgs" using dat AtResponse by simp
    show ?thesis
    proof (cases h)
      case (Fails x)
      show ?thesis
        by (rule keeps_inside[OF inv thread_step_proj(2)])
          (simp_all add: proj AtResponse Fails d sq handle_result_def)
    next
      case (Responds resp)
      show ?thesis
        by (rule keeps_inside[OF inv thread_step_proj(2)])
          (simp_all add: proj AtResponse Responds d sq handle_result_def case_prod_beta
            issued_simps)
    qed
  next
    case (AtRelease r)
    have d: "p_data (its_payload ?th) = Some TheArgs" using dat AtRelease by simp
    show ?thesis
      by (rule keeps_leaving[OF inv thread_step_proj(2)])
        (simp_all add: proj AtRelease d set_lock_def)
  next
    case (AtLeave r)
    show ?thesis
      by (rule keeps_outside[OF inv thread_step_proj(2)])
        (simp_all add: proj AtLeave set_coach_def)
  next
    case (Ended r)
    show ?thesis
      by (rule keeps_outside[OF inv thread_step_proj(2)]) (simp_all add: proj Ended)
  qed
qed

lemma sends_in_order_act:
  assumes inv: "sends_in_order s"
  shows "sends_in_order (act env s a)"
proof (cases a)
  case (Step t)
  then show ?thesis using inv by (simp add: sends_in_order_step)
next
  case (Enters t p b)
  show ?thesis
  proof (cases "at (threads s t)")
    case (Ended r)
    have "sends_in_order
        (s\<lparr>threads := (threads s)(t := \<lparr>its_payload = p, its_args = b, at = AtData\<rparr>)\<rparr>)"
      by (rule keeps_outside[OF inv, where t = t
            and th' = "\<lparr>its_payload = p, its_args = b, at = AtData\<rparr>"])
        (simp_all add: Ended)
    then show ?thesis using Enters Ended by simp
  qed (use inv Enters in simp_all)
next
  case Tick
  then show ?thesis
    using inv
    by (simp add: sends_in_order_def lock_spans_def pending_def prepared_def awaiting_send_def
        carries_nonce_def issued_simps)
qed

lemma sends_in_order_run: "sends_in_order s \<Longrightarrow> sends_in_order (run_threads env s as)"
proof (induction as arbitrary: s)
  case Nil
  then show ?case by (simp add: run_threads_def)
next
  case (Cons a as)
  have "sends_in_order (act env s a)" using Cons.prems by (rule sends_in_order_act)
  from Cons.IH[OF this] show ?case by (simp add: run_threads_def)
qed

text \<open>A thread whose steps are not interleaved with those of others runs as \<open>run_alone\<close>
  says.\<close>

lemma frame_of_thread_step:
  "frame_of (thread_step env s t) t = fst (private_step env (frame_of s t, at (threads s t)))"
  "at (threads (thread_step env s t) t) = snd (private_step env (frame_of s t, at (threads s t)))"
  by (simp_all add: frame_of_def thread_step_proj)

lemma solo_schedule:
  "frame_of (run_threads env s (replicate k (Step t))) t =
      fst (run_alone k env (frame_of s t, at (threads s t)))
   \<and> at (threads (run_threads env s (replicate k (Step t))) t) =
      snd (run_alone k env (frame_of s t, at (threads s t)))"
proof (induction k arbitrary: s)
  case 0
  show ?case by (simp add: run_threads_def)
next
  case (Suc k)
  have "run_threads env s (replicate (Suc k) (Step t)) =
      run_threads env (thread_step env s t) (replicate k (Step t))"
    by (simp add: run_threads_def)
  then show ?case
    using Suc.IH[of "thread_step env s t"] by (simp add: frame_of_thread_step)
qed

lemma run_alone_add: "run_alone (k + m) env fp = run_alone m env (run_alone k env fp)"
  by (induction k arbitrary: fp) simp_all

lemma run_alone_past:
  assumes "run_alone k env fp = (f', Ended r)" "k \<le> m"
  shows "run_alone m env fp = (f', Ended r)"
proof -
  have "run_alone (k + (m - k)) env fp = run_alone (m - k) env (run_alone k env fp)"
    by (rule run_alone_add)
  then show ?thesis using assms by (simp add: run_alone_Ended)
qed

lemma handle_result_keeps:
  "nonce_lock (self (snd (handle_result h f))) = nonce_lock (self f)"
  "sent (self (snd (handle_result h f))) = sent (self f)"
  by (cases h; simp add: handle_result_def case_prod_beta)+

lemma steps_cases:
  obtains "k = 0" | "k = Suc 0" | "k = 2" | "k = 3" | "k = 4" | "k = 5" | "k = 6" | "k = 7"
    | "k = 8" | "k = 9" | "k = 10" | "(11::nat) \<le> k"
proof -
  have "k = 0 \<or> k = Suc 0 \<or> k = 2 \<or> k = 3 \<or> k = 4 \<or> k = 5 \<or> k = 6 \<or> k = 7 \<or> k = 8 \<or>
      k = 9 \<or> k = 10 \<or> 11 \<le> k"
    by arith
  then show thesis using that by blast
qed

text \<open>
  A thread that runs alone, with a permit free, the lock free and a secret.  When the signing
  yields a digest, the lock is held after each of its steps from the third to the ninth:
  from before the read of the nonce, through the write, the attaching, the signature and the
  handing of the request to the session (the eighth step), to the handling of the response;
  the nonce is written by the fifth step and the request is in the session's record from the
  eighth.  When the signing raises, the lock is held from the third step to the seventh and
  nothing is handed to the session.
\<close>

lemma solo_signed:
  assumes "nonce_lock (self f) = Some False" "timer_ident (coach (self f)) = None"
    "0 < permits (coach (self f))" "secret (self f) = Some sk"
    "signature env f sk = Inr digest"
  shows "nonce_lock (self (fst (run_alone k env (f, AtData)))) = Some (3 \<le> k \<and> k \<le> 9)"
    and "k \<le> 8 \<Longrightarrow> nonce (self (fst (run_alone k env (f, AtData)))) =
          (if k \<le> 4 then nonce (self f) else nonce (self f) + 1)"
    and "sent (self (fst (run_alone k env (f, AtData)))) =
          (if k \<le> 7 then sent (self f) else sent (self f) @ [signed_request f digest])"
proof -
  note s = run_alone_numeral private_step_simps wait_granted set_coach_def set_lock_def
    exit_coach_def session_send_def request_of_def signed_request_def handle_result_keeps
    case_prod_beta Let_def
  have sg: "hmac_sha512_hexdigest env sk
      (urlencode env (dict_set (args f) ''nonce'' (AInt (nonce (self f) + 1)))) = Inr digest"
    using assms(5) by (simp add: signature_def)
  obtain f' r where e: "run_alone 11 env (f, AtData) = (f', Ended r)"
    using assms(1-4) sg by (simp add: s)
  have l11: "nonce_lock (self (fst (run_alone 11 env (f, AtData)))) = Some False"
    and s11: "sent (self (fst (run_alone 11 env (f, AtData)))) = sent (self f) @ [signed_request f digest]"
    using assms(1-4) sg by (simp_all add: s)
  have past: "run_alone k env (f, AtData) = run_alone 11 env (f, AtData)" if "11 \<le> k"
    using run_alone_past[OF e that] e by simp
  show "nonce_lock (self (fst (run_alone k env (f, AtData)))) = Some (3 \<le> k \<and> k \<le> 9)"
    by (cases k rule: steps_cases) (use assms(1-4) sg l11 past in \<open>simp_all add: s\<close>)
  show "k \<le> 8 \<Longrightarrow> nonce (self (fst (run_alone k env (f, AtData)))) =
          (if k \<le> 4 then nonce (self f) else nonce (self f) + 1)"
    by (cases k rule: steps_cases) (use assms(1-4) sg in \<open>simp_all add: s\<close>)
  show "sent (self (fst (run_alone k env (f, AtData)))) =
          (if k \<le> 7 then sent (self f) else sent (self f) @ [signed_request f digest])"
    by (cases k rule: steps_cases) (use assms(1-4) sg s11 past in \<open>simp_all add: s\<close>)
qed

lemma solo_unsigned:
  assumes "nonce_lock (self f) = Some False" "timer_ident (coach (self f)) = None"
    "0 < permits (coach (self f))" "secret (self f) = Some sk"
    "signature env f sk = Inl x"
  shows "nonce_lock (self (fst (run_alone k env (f, AtData)))) = Some (3 \<le> k \<and> k \<le> 7)"
    and "sent (self (fst (run_alone k env (f, AtData)))) = sent (self f)"
proof -
  note s = run_alone_numeral private_step_simps wait_granted set_coach_def set_lock_def
    exit_coach_def run_alone_Ended
  have sg: "hmac_sha512_hexdigest env sk
      (urlencode env (dict_set (args f) ''nonce'' (AInt (nonce (self f) + 1)))) = Inl x"
    using assms(5) by (simp add: signature_def)
  obtain f' where e: "run_alone 11 env (f, AtData) = (f', Ended (Raise x))"
    using assms(1-4) sg by (simp add: s)
  have l11: "nonce_lock (self (fst (run_alone 11 env (f, AtData)))) = Some False"
    and s11: "sent (self (fst (run_alone 11 env (f, AtData)))) = sent (self f)"
    using assms(1-4) sg by (simp_all add: s)
  have past: "run_alone k env (f, AtData) = run_alone 11 env (f, AtData)" if "11 \<le> k"
    using run_alone_past[OF e that] e by simp
  show "nonce_lock (self (fst (run_alone k env (f, AtData)))) = Some (3 \<le> k \<and> k \<le> 7)"
    by (cases k rule: steps_cases) (use assms(1-4) sg l11 past in \<open>simp_all add: s\<close>)
  show "sent (self (fst (run_alone k env (f, AtData)))) = sent (self f)"
    by (cases k rule: steps_cases) (use assms(1-4) sg s11 past in \<open>simp_all add: s\<close>)
qed

lemma two_threads_run:
  "at (threads (run_threads (python2_env echo) (start trader balances_call) two_threads) 1) = AtSign
   \<and> at (threads (run_threads (python2_env echo) (start trader balances_call) two_threads) 0) =
       AtLeave (Return (JObj []))
   \<and> nonce_lock (shared (run_threads (python2_env echo) (start trader balances_call) two_threads)) =
       Some True
   \<and> issued (shared (run_threads (python2_env echo) (start trader balances_call) two_threads)) =
       [12300]
   \<and> consumed (run_threads (python2_env echo) (start trader balances_call) two_threads) =
       [12300, 12301]"
  by (simp add: run_threads_def two_threads_def start_def balances_call_def new_frame_def
      thread_step_def frame_of_def private_step_simps wait_def semaphore_acquire_def
      set_coach_def set_lock_def exit_coach_def session_send_def request_of_def
      handle_result_def handleResponse_def python2_env_def echo_def trader_def
      PoloniexPrivateAPI_init_def PoloniexPublicAPI_init_def RateLimitEnforcer_def
      issued_def nonce_of_def List.map_filter_simps Let_def)

lemma two_threads_run_python3:
  "at (threads (run_threads (python3_env echo) (start trader balances_call) two_threads) 1) =
       AtRelease (Raise TypeError)
   \<and> at (threads (run_threads (python3_env echo) (start trader balances_call) two_threads) 0) =
       Ended (Raise TypeError)
   \<and> nonce_lock (shared (run_threads (python3_env echo) (start trader balances_call) two_threads)) =
       Some True
   \<and> issued (shared (run_threads (python3_env echo) (start trader balances_call) two_threads)) = []
   \<and> consumed (run_threads (python3_env echo) (start trader balances_call) two_threads) =
       [12300, 12301]"
  by (simp add: run_threads_def two_threads_def start_def balances_call_def new_frame_def
      thread_step_def frame_of_def private_step_simps wait_def semaphore_acquire_def
      set_coach_def set_lock_def exit_coach_def session_send_def request_of_def
      handle_result_def handleResponse_def python3_env_def echo_def trader_def
      PoloniexPrivateAPI_init_def PoloniexPublicAPI_init_def RateLimitEnforcer_def
      issued_def nonce_of_def List.map_filter_simps Let_def)

text \<open>
  Claim C9.  Several threads run \<open>PoloniexPrivateAPI._make_request\<close> on one client whose lock
  is not held at the beginning, in any interleaving of their steps, with the timer firing at
  any moment, with any transport and any signer.  Then at every moment: a thread that is
  between taking the lock and freeing it (reading or writing the nonce, attaching it,
  signing, handing the request to the session, handling the response) finds the lock held
  and is the only thread there; the lock is held only while a thread is there; and the
  requests have been handed to the session in the order in which their nonces were written.
  The steps of a thread that are not interleaved with others are those of \<open>run_alone\<close>, by
  which \<open>PoloniexPrivateAPI_make_request\<close> is defined; and for a thread that runs alone with a
  permit free, the lock free and a secret, the lock is held after each step from the third
  to the ninth when the signing yields a digest, with the nonce written by the fifth step
  and the request with that nonce handed over by the eighth, and from the third to the
  seventh, with nothing handed over, when the signing raises.
\<close>

theorem nonce_lock_orders_sends:
  "(nonce_lock slf \<noteq> Some True \<longrightarrow>
      (\<forall>t. in_block (at (threads (run_threads env (start slf calls) as) t)) \<longrightarrow>
           nonce_lock (shared (run_threads env (start slf calls) as)) = Some True \<and>
           (\<forall>u. in_block (at (threads (run_threads env (start slf calls) as) u)) \<longrightarrow> u = t))
      \<and> (nonce_lock (shared (run_threads env (start slf calls) as)) = Some True \<longrightarrow>
           (\<exists>t. in_block (at (threads (run_threads env (start slf calls) as) t))))
      \<and> subseq (issued (shared (run_threads env (start slf calls) as)))
           (consumed (run_threads env (start slf calls) as)))
   \<and> frame_of (run_threads env s (replicate k (Step t))) t =
        fst (run_alone k env (frame_of s t, at (threads s t)))
   \<and> at (threads (run_threads env s (replicate k (Step t))) t) =
        snd (run_alone k env (frame_of s t, at (threads s t)))
   \<and> (nonce_lock (self f) = Some False \<and> timer_ident (coach (self f)) = None \<and>
       0 < permits (coach (self f)) \<and> secret (self f) = Some sk \<and>
       signature env f sk = Inr digest \<longrightarrow>
        nonce_lock (self (fst (run_alone k env (f, AtData)))) = Some (3 \<le> k \<and> k \<le> 9) \<and>
        (k \<le> 8 \<longrightarrow>
           nonce (self (fst (run_alone k env (f, AtData)))) =
             (if k \<le> 4 then nonce (self f) else nonce (self f) + 1)) \<and>
        sent (self (fst (run_alone k env (f, AtData)))) =
          (if k \<le> 7 then sent (self f) else sent (self f) @ [signed_request f digest]) \<and>
        nonce_of (signed_request f digest) = Some (nonce (self f) + 1))
   \<and> (nonce_lock (self f) = Some False \<and> timer_ident (coach (self f)) = None \<and>
       0 < permits (coach (self f)) \<and> secret (self f) = Some sk \<and>
       signature env f sk = Inl x \<longrightarrow>
        nonce_lock (self (fst (run_alone k env (f, AtData)))) = Some (3 \<le> k \<and> k \<le> 7) \<and>
        sent (self (fst (run_alone k env (f, AtData)))) = sent (self f))"
proof (intro conjI impI)
  let ?s = "run_threads env (start slf calls) as"
  assume free: "nonce_lock slf \<noteq> Some True"
  have "sends_in_order ?s"
    using sends_in_order_start[OF free] by (rule sends_in_order_run)
  then have one: "\<And>t u. in_block (at (threads ?s t)) \<Longrightarrow> in_block (at (threads ?s u)) \<Longrightarrow> u = t"
    and held: "(\<exists>t. in_block (at (threads ?s t))) \<longleftrightarrow> nonce_lock (shared ?s) = Some True"
    and sq: "subseq (issued (shared ?s)) (consumed ?s)"
    by (auto simp: sends_in_order_def lock_spans_def)
  show "\<forall>t. in_block (at (threads ?s t)) \<longrightarrow>
           nonce_lock (shared ?s) = Some True \<and>
           (\<forall>u. in_block (at (threads ?s u)) \<longrightarrow> u = t)"
    using one held by blast
  show "subseq (issued (shared ?s)) (consumed ?s)" by (rule sq)
  assume "nonce_lock (shared ?s) = Some True"
  then show "\<exists>t. in_block (at (threads ?s t))" using held by blast
next
  show "frame_of (run_threads env s (replicate k (Step t))) t =
        fst (run_alone k env (frame_of s t, at (threads s t)))"
    "at (threads (run_threads env s (replicate k (Step t))) t) =
        snd (run_alone k env (frame_of s t, at (threads s t)))"
    using solo_schedule[of env s k t] by simp_all
next
  assume a: "nonce_lock (self f) = Some False \<and> timer_ident (coach (self f)) = None \<and>
       0 < permits (coach (self f)) \<and> secret (self f) = Some sk \<and>
       signature env f sk = Inr digest"
  then have h: "nonce_lock (self f) = Some False" "timer_ident (coach (self f)) = None"
    "0 < permits (coach (self f))" "secret (self f) = Some sk"
    "signature env f sk = Inr digest"
    by simp_all
  show "nonce_lock (self (fst (run_alone k env (f, AtData)))) = Some (3 \<le> k \<and> k \<le> 9)"
    by (rule solo_signed(1)[OF h])
  show "sent (self (fst (run_alone k env (f, AtData)))) =
          (if k \<le> 7 then sent (self f) else sent (self f) @ [signed_request f digest])"
    by (rule solo_signed(3)[OF h])
  show "nonce_of (signed_request f digest) = Some (nonce (self f) + 1)"
    by (rule nonce_of_signed_request)
  assume "k \<le> 8"
  then show "nonce (self (fst (run_alone k env (f, AtData)))) =
             (if k \<le> 4 then nonce (self f) else nonce (self f) + 1)"
    by (rule solo_signed(2)[OF h])
next
  assume a: "nonce_lock (self f) = Some False \<and> timer_ident (coach (self f)) = None \<and>
       0 < permits (coach (self f)) \<and> secret (self f) = Some sk \<and>
       signature env f sk = Inl x"
  then have h: "nonce_lock (self f) = Some False" "timer_ident (coach (self f)) = None"
    "0 < permits (coach (self f))" "secret (self f) = Some sk"
    "signature env f sk = Inl x"
    by simp_all
  show "nonce_lock (self (fst (run_alone k env (f, AtData)))) = Some (3 \<le> k \<and> k \<le> 7)"
    by (rule solo_unsigned(1)[OF h])
  show "sent (self (fst (run_alone k env (f, AtData)))) = sent (self f)"
    by (rule solo_unsigned(2)[OF h])
qed

theorem nonce_lock_orders_sends_witness:
  "in_block (at (threads (run_threads (python2_env echo) (start trader balances_call) two_threads) 1))
   \<and> nonce_lock (shared (run_threads (python2_env echo) (start trader balances_call) two_threads)) =
       Some True
   \<and> \<not> in_block (at (threads (run_threads (python2_env echo) (start trader balances_call) two_threads) 0))
   \<and> subseq
       (issued (shared (run_threads (python2_env echo) (start trader balances_call) two_threads)))
       (consumed (run_threads (python2_env echo) (start trader balances_call) two_threads))
   \<and> issued (shared (run_threads (python2_env echo) (start trader balances_call) two_threads)) =
       [12300]
   \<and> consumed (run_threads (python2_env echo) (start trader balances_call) two_threads) =
       [12300, 12301]
   \<and> nonce_lock (self (fst (run_alone 8 (python2_env echo)
        (new_frame trader PoloniexPrivateAPI_REQEUST_URL ''returnBalances'' [], AtData)))) =
       Some True
   \<and> sent (self (fst (run_alone 8 (python2_env echo)
        (new_frame trader PoloniexPrivateAPI_REQEUST_URL ''returnBalances'' [], AtData)))) =
       [signed_request (new_frame trader PoloniexPrivateAPI_REQEUST_URL ''returnBalances'' [])
          ''scommandnonce'']
   \<and> nonce_lock (self (fst (run_alone 7 (python3_env echo)
        (new_frame trader PoloniexPrivateAPI_REQEUST_URL ''returnBalances'' [], AtData)))) =
       Some True
   \<and> sent (self (fst (run_alone 8 (python3_env echo)
        (new_frame trader PoloniexPrivateAPI_REQEUST_URL ''returnBalances'' [], AtData)))) = []"
proof -
  let ?s = "run_threads (python2_env echo) (start trader balances_call) two_threads"
  let ?f = "new_frame trader PoloniexPrivateAPI_REQEUST_URL ''returnBalances'' []"
  have free: "nonce_lock trader \<noteq> Some True" by (simp add: trader_fields)
  note inv = nonce_lock_orders_sends[where slf = trader and env = "python2_env echo"
      and calls = balances_call and as = two_threads, THEN conjunct1, THEN mp, OF free]
  have b1: "in_block (at (threads ?s 1))" using two_threads_run by simp
  from inv b1 have l: "nonce_lock (shared ?s) = Some True"
    and only: "\<forall>u. in_block (at (threads ?s u)) \<longrightarrow> u = 1"
    by blast+
  from only have b0: "\<not> in_block (at (threads ?s 0))" by auto
  from inv have sq: "subseq (issued (shared ?s)) (consumed ?s)" by blast
  have h2: "nonce_lock (self ?f) = Some False \<and> timer_ident (coach (self ?f)) = None \<and>
       0 < permits (coach (self ?f)) \<and> secret (self ?f) = Some ''s'' \<and>
       signature (python2_env echo) ?f ''s'' = Inr ''scommandnonce''"
    by (simp add: new_frame_def trader_fields signature_def python2_env_def)
  note solo2 = nonce_lock_orders_sends[where env = "python2_env echo" and f = ?f
      and sk = "''s''" and digest = "''scommandnonce''" and k = 8,
      THEN conjunct2, THEN conjunct2, THEN conjunct2, THEN conjunct1, THEN mp, OF h2]
  have h3: "nonce_lock (self ?f) = Some False \<and> timer_ident (coach (self ?f)) = None \<and>
       0 < permits (coach (self ?f)) \<and> secret (self ?f) = Some ''s'' \<and>
       signature (python3_env echo) ?f ''s'' = Inl TypeError"
    by (simp add: new_frame_def trader_fields signature_def python3_env_def)
  note solo3a = nonce_lock_orders_sends[where env = "python3_env echo" and f = ?f
      and sk = "''s''" and x = TypeError and k = 7,
      THEN conjunct2, THEN conjunct2, THEN conjunct2, THEN conjunct2, THEN mp, OF h3]
  note solo3b = nonce_lock_orders_sends[where env = "python3_env echo" and f = ?f
      and sk = "''s''" and x = TypeError and k = 8,
      THEN conjunct2, THEN conjunct2, THEN conjunct2, THEN conjunct2, THEN mp, OF h3]
  have s0: "sent (self ?f) = []" by (simp add: new_frame_def trader_fields)
  from b1 l b0 sq two_threads_run solo2 solo3a solo3b s0 show ?thesis by simp
qed

end
